theory Spec2Isabelle
  imports Main "HOL-Library.Word"
begin

unbundle bit_operations_syntax

section \<open>Data model\<close>

text \<open>
  A JavaScript string is modelled as a \<^typ>\<open>string\<close>: one \<^typ>\<open>char\<close> per code unit,
  for the code units below \<open>0x100\<close>. The line feed is \<open>CHR 0x0A\<close>, the backslash
  \<open>CHR 0x5C\<close>.

  One entry of \<open>compareData.files\<close> (\<open>src/app.js\<close>, \<open>loadDiff\<close>). A field
  that the JSON object does not carry reads as \<open>undefined\<close> in the source and is \<open>None\<close>
  here; \<open>filename\<close> and \<open>status\<close> are always present.
\<close>

record file_change =
  filename :: string
  previous_filename :: "string option"
  status :: string
  patch :: "string option"
  additions :: "int option"
  deletions :: "int option"
  mode :: "string option"
  previous_mode :: "string option"

text \<open>
  What the source can raise. \<open>NotModelled\<close> is not an exception of the program: a
  function of the platform (the regular expression compiler, the URL parser) returns it on
  an argument outside the part of the platform that this theory describes.
\<close>

datatype js_error = SyntaxError | DataError | NotModelled

section \<open>The unified diff of \<open>loadDiff\<close>\<close>

text \<open>\<open>x || d\<close> on an optional string: \<open>undefined\<close> and the empty string are falsy.\<close>

definition or_else :: "string option \<Rightarrow> string \<Rightarrow> string" where
  "or_else x d = (case x of None \<Rightarrow> d | Some s \<Rightarrow> if s = [] then d else s)"

text \<open>\<open>if (file.patch)\<close>: the patch is there and is not the empty string.\<close>

definition truthy :: "string option \<Rightarrow> bool" where
  "truthy x = (case x of None \<Rightarrow> False | Some s \<Rightarrow> s \<noteq> [])"

definition nl :: string where
  "nl = [CHR 0x0A]"

text \<open>
  The body of the loop \<open>for (const file of files)\<close>: the text that one file appends to
  \<open>unifiedDiff\<close>. The \<open>continue\<close> of the first test appends nothing.
\<close>

definition file_section :: "file_change \<Rightarrow> string" where
  "file_section file =
     (if patch file = None \<and> status file \<noteq> ''removed'' \<and> status file \<noteq> ''added'' then []
      else
        let oldFilename = or_else (previous_filename file) (filename file);
            newFilename = filename file
        in
          (if status file = ''removed'' then
             ''diff --git a/'' @ oldFilename @ '' b/'' @ oldFilename @ nl @
             ''deleted file mode '' @ or_else (previous_mode file) ''100644'' @ nl @
             ''--- a/'' @ oldFilename @ nl @
             ''+++ /dev/null'' @ nl
           else if status file = ''added'' then
             ''diff --git a/'' @ newFilename @ '' b/'' @ newFilename @ nl @
             ''new file mode '' @ or_else (mode file) ''100644'' @ nl @
             ''--- /dev/null'' @ nl @
             ''+++ b/'' @ newFilename @ nl
           else if status file = ''renamed'' then
             ''diff --git a/'' @ oldFilename @ '' b/'' @ newFilename @ nl @
             ''rename from '' @ oldFilename @ nl @
             ''rename to '' @ newFilename @ nl @
             (if truthy (patch file) then
                ''--- a/'' @ oldFilename @ nl @
                ''+++ b/'' @ newFilename @ nl
              else [])
           else
             ''diff --git a/'' @ filename file @ '' b/'' @ filename file @ nl @
             ''--- a/'' @ filename file @ nl @
             ''+++ b/'' @ filename file @ nl)
          @ (case patch file of None \<Rightarrow> [] | Some p \<Rightarrow> if p \<noteq> [] then p @ nl else []))"

text \<open>The loop itself: \<open>unifiedDiff\<close> starts empty and every file appends its section.\<close>

fun unified_loop :: "string \<Rightarrow> file_change list \<Rightarrow> string" where
  "unified_loop unifiedDiff [] = unifiedDiff"
| "unified_loop unifiedDiff (file # files) = unified_loop (unifiedDiff @ file_section file) files"

definition unifiedDiff :: "file_change list \<Rightarrow> string" where
  "unifiedDiff files = unified_loop [] files"

section \<open>Regular expressions of the platform\<close>

text \<open>
  \<open>matchGlob\<close> writes the source text of a regular expression and hands it to
  \<open>new RegExp\<close> and \<open>RegExp.prototype.test\<close>. This section describes that part of the
  ECMAScript pattern language (no flags): characters, \<open>.\<close>, character classes without
  ranges, the assertions \<open>^\<close> and \<open>$\<close>, the greedy quantifiers \<open>*\<close>, \<open>+\<close>, \<open>?\<close>,
  groups and alternatives. On any other construct the compiler answers \<open>NotModelled\<close>.
\<close>

definition backslash :: char where
  "backslash = CHR 0x5C"

datatype regex =
    Chr char
  | Dot
  | CharClass bool "char list"
  | Bol
  | Eol
  | Star regex
  | Plus regex
  | Opt regex
  | Seq "regex list"
  | Alt "regex list"

datatype token =
    TChr char | TDot | TClass bool "char list" | TStar | TPlus | TOpt
  | TOpen | TClose | TBar | TBol | TEol

text \<open>The syntax characters of the pattern grammar.\<close>

definition syntax_chars :: "char list" where
  "syntax_chars = ''^$.*+?()[]{}|'' @ [backslash]"

definition cons_tok :: "token \<Rightarrow> js_error + token list \<Rightarrow> js_error + token list" where
  "cons_tok t r = (case r of Inl e \<Rightarrow> Inl e | Inr ts \<Rightarrow> Inr (t # ts))"

text \<open>
  The lexer. A backslash before a syntax character or \<open>/\<close> is an identity escape; a class
  runs to the next \<open>]\<close>; \<open>(?:\<close> opens a group as \<open>(\<close> does (\<open>test\<close> does not read
  captures). A lone \<open>]\<close> or \<open>}\<close> is a literal character.
\<close>

function lex :: "string \<Rightarrow> js_error + token list" where
  "lex [] = Inr []"
| "lex (c # cs) =
     (if c = backslash then
        (case cs of
           [] \<Rightarrow> Inl SyntaxError
         | d # ds \<Rightarrow>
             if d \<in> set syntax_chars \<or> d = CHR ''/'' then cons_tok (TChr d) (lex ds)
             else Inl NotModelled)
      else if c = CHR ''['' then
        (let body = takeWhile (\<lambda>x. x \<noteq> CHR '']'') cs;
             rest = dropWhile (\<lambda>x. x \<noteq> CHR '']'') cs
         in if rest = [] then Inl SyntaxError
            else if backslash \<in> set body \<or> CHR ''-'' \<in> set body then Inl NotModelled
            else if body \<noteq> [] \<and> hd body = CHR ''^''
              then cons_tok (TClass True (tl body)) (lex (tl rest))
              else cons_tok (TClass False body) (lex (tl rest)))
      else if c = CHR ''('' then
        (case cs of
           [] \<Rightarrow> Inr [TOpen]
         | d # ds \<Rightarrow>
             if d = CHR ''?'' then
               (case ds of
                  [] \<Rightarrow> Inl SyntaxError
                | e # es \<Rightarrow> if e = CHR '':'' then cons_tok TOpen (lex es) else Inl NotModelled)
             else cons_tok TOpen (lex cs))
      else if c = CHR '')'' then cons_tok TClose (lex cs)
      else if c = CHR ''|'' then cons_tok TBar (lex cs)
      else if c = CHR ''*'' then cons_tok TStar (lex cs)
      else if c = CHR ''+'' then cons_tok TPlus (lex cs)
      else if c = CHR ''?'' then cons_tok TOpt (lex cs)
      else if c = CHR ''.'' then cons_tok TDot (lex cs)
      else if c = CHR ''^'' then cons_tok TBol (lex cs)
      else if c = CHR ''$'' then cons_tok TEol (lex cs)
      else if c = CHR ''{'' then Inl NotModelled
      else cons_tok (TChr c) (lex cs))"
  by pat_completeness auto
termination
  by (relation "measure length")
     (auto simp: less_Suc_eq_le intro: le_trans[OF _ length_dropWhile_le] diff_le_self le_trans)

text \<open>
  The parser keeps one frame per open group: the alternatives already closed (last
  first), the terms of the alternative being read (last first), and whether the last
  term can take a quantifier. A quantifier with nothing to repeat, an unmatched \<open>)\<close>
  and an unclosed group are syntax errors; \<open>?\<close> after a quantifier (a lazy
  quantifier) is not modelled.
\<close>

datatype tail = NoAtom | Atom | Quantified

type_synonym frame = "regex list \<times> regex list \<times> tail"

definition close_frame :: "frame \<Rightarrow> regex" where
  "close_frame fr = (case fr of (alts, cur, q) \<Rightarrow> Alt (rev (Seq (rev cur) # alts)))"

definition quantify :: "(regex \<Rightarrow> regex) \<Rightarrow> frame \<Rightarrow> js_error + frame" where
  "quantify Q fr =
     (case fr of (alts, cur, q) \<Rightarrow>
        (case cur of
           [] \<Rightarrow> Inl SyntaxError
         | a # rest \<Rightarrow> if q = Atom then Inr (alts, Q a # rest, Quantified) else Inl SyntaxError))"

fun parse :: "token list \<Rightarrow> frame \<Rightarrow> frame list \<Rightarrow> js_error + regex" where
  "parse [] fr stack = (if stack = [] then Inr (close_frame fr) else Inl SyntaxError)"
| "parse (t # ts) (alts, cur, q) stack =
     (case t of
        TChr c \<Rightarrow> parse ts (alts, Chr c # cur, Atom) stack
      | TDot \<Rightarrow> parse ts (alts, Dot # cur, Atom) stack
      | TClass n ms \<Rightarrow> parse ts (alts, CharClass n ms # cur, Atom) stack
      | TBol \<Rightarrow> parse ts (alts, Bol # cur, NoAtom) stack
      | TEol \<Rightarrow> parse ts (alts, Eol # cur, NoAtom) stack
      | TStar \<Rightarrow>
          (case quantify Star (alts, cur, q) of Inl e \<Rightarrow> Inl e | Inr fr \<Rightarrow> parse ts fr stack)
      | TPlus \<Rightarrow>
          (case quantify Plus (alts, cur, q) of Inl e \<Rightarrow> Inl e | Inr fr \<Rightarrow> parse ts fr stack)
      | TOpt \<Rightarrow>
          (if q = Quantified then Inl NotModelled
           else (case quantify Opt (alts, cur, q) of
                   Inl e \<Rightarrow> Inl e
                 | Inr fr \<Rightarrow> parse ts fr stack))
      | TOpen \<Rightarrow> parse ts ([], [], NoAtom) ((alts, cur, q) # stack)
      | TClose \<Rightarrow>
          (case stack of
             [] \<Rightarrow> Inl SyntaxError
           | (alts', cur', q') # stack' \<Rightarrow>
               parse ts (alts', close_frame (alts, cur, q) # cur', Atom) stack')
      | TBar \<Rightarrow> parse ts (Seq (rev cur) # alts, [], NoAtom) stack)"

text \<open>\<open>new RegExp(src)\<close>.\<close>

definition RegExp :: "string \<Rightarrow> js_error + regex" where
  "RegExp src = (case lex src of Inl e \<Rightarrow> Inl e | Inr ts \<Rightarrow> parse ts ([], [], NoAtom) [])"

text \<open>
  Matching. A matcher state is the input still to read and whether the matcher stands at
  the start of the input. \<open>run r st\<close> lists the states in which a match of \<open>r\<close> begun in
  \<open>st\<close> can end. \<open>.\<close> matches any character but a line terminator. An iteration of \<open>*\<close>
  that reads nothing is dropped, as the standard's empty check does, so the length of
  the input bounds the iterations.
\<close>

type_synonym mstate = "bool \<times> string"

definition line_terminator :: "char \<Rightarrow> bool" where
  "line_terminator c = (c = CHR 0x0A \<or> c = CHR 0x0D)"

definition step :: "(char \<Rightarrow> bool) \<Rightarrow> mstate \<Rightarrow> mstate list" where
  "step P st = (case snd st of [] \<Rightarrow> [] | x # xs \<Rightarrow> if P x then [(False, xs)] else [])"

fun star_iter :: "nat \<Rightarrow> (mstate \<Rightarrow> mstate list) \<Rightarrow> mstate \<Rightarrow> mstate list" where
  "star_iter 0 f st = [st]"
| "star_iter (Suc n) f st =
     st # concat (map (star_iter n f)
                    (filter (\<lambda>st'. length (snd st') < length (snd st)) (f st)))"

definition star :: "(mstate \<Rightarrow> mstate list) \<Rightarrow> mstate \<Rightarrow> mstate list" where
  "star f st = star_iter (length (snd st)) f st"

fun run_seq :: "(mstate \<Rightarrow> mstate list) list \<Rightarrow> mstate \<Rightarrow> mstate list" where
  "run_seq [] st = [st]"
| "run_seq (f # fs) st = concat (map (run_seq fs) (f st))"

primrec run :: "regex \<Rightarrow> mstate \<Rightarrow> mstate list" where
  "run (Chr c) = step (\<lambda>x. x = c)"
| "run Dot = step (\<lambda>x. \<not> line_terminator x)"
| "run (CharClass n ms) = step (\<lambda>x. (x \<in> set ms) \<noteq> n)"
| "run Bol = (\<lambda>st. if fst st then [st] else [])"
| "run Eol = (\<lambda>st. if snd st = [] then [st] else [])"
| "run (Star r) = star (run r)"
| "run (Plus r) = (\<lambda>st. concat (map (star (run r)) (run r st)))"
| "run (Opt r) = (\<lambda>st. st # run r st)"
| "run (Seq rs) = run_seq (map run rs)"
| "run (Alt rs) = (\<lambda>st. concat (map (\<lambda>f. f st) (map run rs)))"

text \<open>\<open>regex.test(s)\<close>, no flags: a match may begin at any index of \<open>s\<close>.\<close>

definition test :: "regex \<Rightarrow> string \<Rightarrow> bool" where
  "test r s = list_ex (\<lambda>k. run r (k = 0, drop k s) \<noteq> []) [0..<Suc (length s)]"

section \<open>\<open>matchGlob\<close>\<close>

text \<open>\<open>s.split(sep)\<close> for a separator of one character.\<close>

fun split_char :: "char \<Rightarrow> string \<Rightarrow> string list" where
  "split_char sep [] = [[]]"
| "split_char sep (c # cs) =
     (if c = sep then [] # split_char sep cs
      else (case split_char sep cs of [] \<Rightarrow> [[c]] | part # parts \<Rightarrow> (c # part) # parts))"

text \<open>\<open>str.replace(/[.+^${}()|[\]\\]/g, '\\$&')\<close>: a backslash before each listed character.\<close>

definition escapeRegex :: "string \<Rightarrow> string" where
  "escapeRegex str =
     concat (map (\<lambda>c. if c \<in> set (''.+^${}()|[]'' @ [backslash]) then [backslash, c] else [c]) str)"

text \<open>The inner loop over the characters of one segment.\<close>

fun segment_loop :: "string \<Rightarrow> string \<Rightarrow> string" where
  "segment_loop segmentPattern [] = segmentPattern"
| "segment_loop segmentPattern (char # segment) =
     segment_loop
       (if char = CHR ''*'' then segmentPattern @ ''[^/]*''
        else if char = CHR ''?'' then segmentPattern @ ''[^/]''
        else segmentPattern @ escapeRegex [char]) segment"

text \<open>
  The outer loop over the segments; \<open>i === segments.length - 1\<close> holds when no segment
  follows.
\<close>

fun segments_loop :: "string \<Rightarrow> string list \<Rightarrow> string" where
  "segments_loop regexPattern [] = regexPattern"
| "segments_loop regexPattern (segment # rest) =
     segments_loop
       (if segment = ''**'' then
          (if rest = [] then regexPattern @ ''.*'' else regexPattern @ ''(?:.*/)?'')
        else
          (let regexPattern' = regexPattern @ segment_loop [] segment
           in if rest \<noteq> [] then regexPattern' @ ''/'' else regexPattern')) rest"

definition matchGlob :: "string \<Rightarrow> string \<Rightarrow> js_error + bool" where
  "matchGlob pattern path =
     (if pattern = [] then Inr True
      else
        let segments = split_char CHR ''/'' pattern;
            regexPattern = segments_loop [] segments
        in (case RegExp (''^'' @ regexPattern @ ''$'') of
              Inl e \<Rightarrow> Inl e
            | Inr regex \<Rightarrow> Inr (test regex path)))"

section \<open>A direct matcher for glob patterns\<close>

text \<open>
  The pattern as a list of segment matchers, read off the pattern without any regular
  expression: a literal character, \<open>?\<close>, \<open>*\<close>, a \<open>**\<close> segment that is followed by
  another segment, and a \<open>**\<close> segment that is the last one. The separator between two
  segments is the literal \<open>/\<close>, except after a \<open>**\<close> segment, which reads its own.
\<close>

datatype glob_item = Lit char | AnyOne | AnyRun | DirsOpt | Rest

definition segment_items :: "string \<Rightarrow> glob_item list" where
  "segment_items segment =
     map (\<lambda>c. if c = CHR ''*'' then AnyRun else if c = CHR ''?'' then AnyOne else Lit c) segment"

fun glob_items :: "string list \<Rightarrow> glob_item list" where
  "glob_items [] = []"
| "glob_items (segment # rest) =
     (if segment = ''**'' then (if rest = [] then [Rest] else [DirsOpt])
      else segment_items segment @ (if rest \<noteq> [] then [Lit CHR ''/''] else []))
     @ glob_items rest"

text \<open>
  \<open>items_match is s\<close>: the whole of \<open>s\<close> is matched by the items in order. \<open>AnyOne\<close>
  reads one character other than \<open>/\<close>, \<open>AnyRun\<close> any number of them. \<open>Rest\<close> reads any
  number of characters that are not line terminators; \<open>DirsOpt\<close> reads nothing, or such
  characters up to and including a \<open>/\<close> (\<open>dirs_match\<close>).
\<close>

fun items_match :: "glob_item list \<Rightarrow> string \<Rightarrow> bool"
  and dirs_match :: "glob_item list \<Rightarrow> string \<Rightarrow> bool" where
  "items_match [] s = (s = [])"
| "items_match (Lit c # is) s = (case s of [] \<Rightarrow> False | x # xs \<Rightarrow> x = c \<and> items_match is xs)"
| "items_match (AnyOne # is) s =
     (case s of [] \<Rightarrow> False | x # xs \<Rightarrow> x \<noteq> CHR ''/'' \<and> items_match is xs)"
| "items_match (AnyRun # is) s =
     (items_match is s \<or>
      (case s of [] \<Rightarrow> False | x # xs \<Rightarrow> x \<noteq> CHR ''/'' \<and> items_match (AnyRun # is) xs))"
| "items_match (Rest # is) s =
     (items_match is s \<or>
      (case s of [] \<Rightarrow> False | x # xs \<Rightarrow> \<not> line_terminator x \<and> items_match (Rest # is) xs))"
| "items_match (DirsOpt # is) s = (items_match is s \<or> dirs_match is s)"
| "dirs_match is [] = False"
| "dirs_match is (x # xs) =
     ((x = CHR ''/'' \<and> items_match is xs) \<or> (\<not> line_terminator x \<and> dirs_match is xs))"

definition direct_match :: "string \<Rightarrow> string \<Rightarrow> bool" where
  "direct_match pattern path =
     (pattern = [] \<or> items_match (glob_items (split_char CHR ''/'' pattern)) path)"

section \<open>The regular expression of a list of items\<close>

text \<open>
  For the proofs: the source text that \<open>matchGlob\<close> writes for one item, the tokens of
  that text, and the term they parse to.
\<close>

fun item_src :: "glob_item \<Rightarrow> string" where
  "item_src (Lit c) = escapeRegex [c]"
| "item_src AnyOne = ''[^/]''"
| "item_src AnyRun = ''[^/]*''"
| "item_src DirsOpt = ''(?:.*/)?''"
| "item_src Rest = ''.*''"

fun item_tokens :: "glob_item \<Rightarrow> token list" where
  "item_tokens (Lit c) = [TChr c]"
| "item_tokens AnyOne = [TClass True ''/'']"
| "item_tokens AnyRun = [TClass True ''/'', TStar]"
| "item_tokens DirsOpt = [TOpen, TDot, TStar, TChr CHR ''/'', TClose, TOpt]"
| "item_tokens Rest = [TDot, TStar]"

fun item_term :: "glob_item \<Rightarrow> regex" where
  "item_term (Lit c) = Chr c"
| "item_term AnyOne = CharClass True ''/''"
| "item_term AnyRun = Star (CharClass True ''/'')"
| "item_term DirsOpt = Opt (Alt [Seq [Star Dot, Chr CHR ''/'']])"
| "item_term Rest = Star Dot"

fun item_tail :: "glob_item \<Rightarrow> tail" where
  "item_tail (Lit c) = Atom"
| "item_tail AnyOne = Atom"
| "item_tail it = Quantified"

fun wild_free :: "glob_item \<Rightarrow> bool" where
  "wild_free (Lit c) = (c \<noteq> CHR ''*'' \<and> c \<noteq> CHR ''?'')"
| "wild_free it = True"

definition prepend :: "token list \<Rightarrow> js_error + token list \<Rightarrow> js_error + token list" where
  "prepend ts r = (case r of Inl e \<Rightarrow> Inl e | Inr us \<Rightarrow> Inr (ts @ us))"

definition accepts :: "(mstate \<Rightarrow> mstate list) list \<Rightarrow> mstate \<Rightarrow> bool" where
  "accepts fs st = (\<exists>st' \<in> set (run_seq fs st). snd st' = [])"

definition accepts_dirs :: "(mstate \<Rightarrow> mstate list) list \<Rightarrow> mstate \<Rightarrow> bool" where
  "accepts_dirs fs st =
     accepts (star (step (\<lambda>x. \<not> line_terminator x)) # step (\<lambda>x. x = CHR ''/'') # fs) st"

section \<open>The file list and the totals of \<open>loadDiff\<close>\<close>

text \<open>
  \<open>files.filter((f) => matchGlob(pathFilter, f.filename))\<close>; an exception of the callback
  ends the filter.
\<close>

fun filter_files :: "string \<Rightarrow> file_change list \<Rightarrow> js_error + file_change list" where
  "filter_files pathFilter [] = Inr []"
| "filter_files pathFilter (f # fs) =
     (case matchGlob pathFilter (filename f) of
        Inl e \<Rightarrow> Inl e
      | Inr keep \<Rightarrow>
          (case filter_files pathFilter fs of
             Inl e \<Rightarrow> Inl e
           | Inr kept \<Rightarrow> Inr (if keep then f # kept else kept)))"

text \<open>
  \<open>f.additions || 0\<close>. A count of the compare response is a number of the source with an
  integer value, and is that integer here.
\<close>

definition count_or_zero :: "int option \<Rightarrow> int" where
  "count_or_zero x = (case x of None \<Rightarrow> 0 | Some n \<Rightarrow> n)"

text \<open>
  \<open>sum + n\<close> on numbers of the source with integer values: the double nearest to the
  exact sum, a tie going to the even significand. Every integer up to \<open>2^53\<close> in absolute
  value is a double, so the sum is exact there; beyond, a double has 53 significant bits.
  Sums that reach \<open>2^1024\<close> in absolute value (\<open>Infinity\<close>) are outside the model.
\<close>

fun bit_length :: "nat \<Rightarrow> nat" where
  "bit_length n = (if n = 0 then 0 else Suc (bit_length (n div 2)))"

definition to_double :: "int \<Rightarrow> int" where
  "to_double x =
     (if \<bar>x\<bar> \<le> 2 ^ 53 then x
      else
        let e = bit_length (nat \<bar>x\<bar>) - 53;
            q = \<bar>x\<bar> div 2 ^ e;
            r = \<bar>x\<bar> mod 2 ^ e;
            half = 2 ^ (e - 1);
            q' = (if r > half \<or> (r = half \<and> odd q) then q + 1 else q)
        in sgn x * (q' * 2 ^ e))"

definition number_add :: "int \<Rightarrow> int \<Rightarrow> int" where
  "number_add a b = to_double (a + b)"

text \<open>
  What \<open>loadDiff\<close> leaves on the page once the compare response is there. \<open>stats\<close> is
  the statistics panel: cleared, the message ``No files match the filter.'', or the number
  of files with the two totals. \<open>rendered\<close> is the diff text in the diff container: the
  container is cleared first and \<open>Diff2HtmlUI\<close> draws \<open>unifiedDiff\<close> into it when that
  text is not empty. \<open>error\<close> is the exception that the \<open>catch\<close> branch reports, if any.
\<close>

datatype stats_view =
    Cleared
  | NoFilesMatch
  | Summary (fileCount: nat) (totalAdditions: int) (totalDeletions: int)

record page =
  stats :: stats_view
  rendered :: string
  error :: "js_error option"

definition filtered_files :: "string \<Rightarrow> file_change list \<Rightarrow> js_error + file_change list" where
  "filtered_files pathFilter compareFiles =
     (if pathFilter \<noteq> [] then filter_files pathFilter compareFiles else Inr compareFiles)"

definition loadDiff :: "file_change list \<Rightarrow> string \<Rightarrow> page" where
  "loadDiff compareFiles pathFilter =
     (case filtered_files pathFilter compareFiles of
        Inl e \<Rightarrow> \<lparr>stats = Cleared, rendered = [], error = Some e\<rparr>
      | Inr files \<Rightarrow>
          if length files = 0 then \<lparr>stats = NoFilesMatch, rendered = [], error = None\<rparr>
          else
            \<lparr>stats = Summary (length files)
                      (foldl (\<lambda>sum f. number_add sum (count_or_zero (additions f))) 0 files)
                      (foldl (\<lambda>sum f. number_add sum (count_or_zero (deletions f))) 0 files),
             rendered = unifiedDiff files,
             error = None\<rparr>)"

section \<open>The keyed hash of the platform\<close>

text \<open>
  \<open>signState\<close> (\<open>src/gh-dir-diff-oauth/src/index.ts\<close>) calls
  \<open>crypto.subtle.importKey\<close> and \<open>crypto.subtle.sign\<close> for HMAC with SHA-256. This
  section writes that function out, from FIPS 180-4 and RFC 2104. A byte is a natural
  number below 256.
\<close>

definition K256 :: "32 word list" where
  "K256 =
    [0x428A2F98, 0x71374491, 0xB5C0FBCF, 0xE9B5DBA5, 0x3956C25B, 0x59F111F1, 0x923F82A4, 0xAB1C5ED5,
     0xD807AA98, 0x12835B01, 0x243185BE, 0x550C7DC3, 0x72BE5D74, 0x80DEB1FE, 0x9BDC06A7, 0xC19BF174,
     0xE49B69C1, 0xEFBE4786, 0x0FC19DC6, 0x240CA1CC, 0x2DE92C6F, 0x4A7484AA, 0x5CB0A9DC, 0x76F988DA,
     0x983E5152, 0xA831C66D, 0xB00327C8, 0xBF597FC7, 0xC6E00BF3, 0xD5A79147, 0x06CA6351, 0x14292967,
     0x27B70A85, 0x2E1B2138, 0x4D2C6DFC, 0x53380D13, 0x650A7354, 0x766A0ABB, 0x81C2C92E, 0x92722C85,
     0xA2BFE8A1, 0xA81A664B, 0xC24B8B70, 0xC76C51A3, 0xD192E819, 0xD6990624, 0xF40E3585, 0x106AA070,
     0x19A4C116, 0x1E376C08, 0x2748774C, 0x34B0BCB5, 0x391C0CB3, 0x4ED8AA4A, 0x5B9CCA4F, 0x682E6FF3,
     0x748F82EE, 0x78A5636F, 0x84C87814, 0x8CC70208, 0x90BEFFFA, 0xA4506CEB, 0xBEF9A3F7, 0xC67178F2]"

type_synonym hash_state =
  "32 word \<times> 32 word \<times> 32 word \<times> 32 word \<times> 32 word \<times> 32 word \<times> 32 word \<times> 32 word"

definition H256 :: hash_state where
  "H256 =
     (0x6A09E667, 0xBB67AE85, 0x3C6EF372, 0xA54FF53A, 0x510E527F, 0x9B05688C, 0x1F83D9AB, 0x5BE0CD19)"

definition rotr :: "nat \<Rightarrow> 32 word \<Rightarrow> 32 word" where
  "rotr n x = word_rotr n x"

text \<open>The six functions of SHA-256.\<close>

definition big_sigma0 :: "32 word \<Rightarrow> 32 word" where
  "big_sigma0 x = rotr 2 x XOR rotr 13 x XOR rotr 22 x"

definition big_sigma1 :: "32 word \<Rightarrow> 32 word" where
  "big_sigma1 x = rotr 6 x XOR rotr 11 x XOR rotr 25 x"

definition small_sigma0 :: "32 word \<Rightarrow> 32 word" where
  "small_sigma0 x = rotr 7 x XOR rotr 18 x XOR drop_bit 3 x"

definition small_sigma1 :: "32 word \<Rightarrow> 32 word" where
  "small_sigma1 x = rotr 17 x XOR rotr 19 x XOR drop_bit 10 x"

definition ch :: "32 word \<Rightarrow> 32 word \<Rightarrow> 32 word \<Rightarrow> 32 word" where
  "ch x y z = (x AND y) XOR (NOT x AND z)"

definition maj :: "32 word \<Rightarrow> 32 word \<Rightarrow> 32 word \<Rightarrow> 32 word" where
  "maj x y z = (x AND y) XOR (x AND z) XOR (y AND z)"

text \<open>Big-endian words and bytes.\<close>

definition be32 :: "nat list \<Rightarrow> 32 word" where
  "be32 bs = word_of_nat (foldl (\<lambda>acc b. acc * 256 + b) 0 bs)"

definition bytes_of_nat :: "nat \<Rightarrow> nat \<Rightarrow> nat list" where
  "bytes_of_nat n v = map (\<lambda>i. (v div 256 ^ (n - 1 - i)) mod 256) [0..<n]"

text \<open>
  Padding: the byte \<open>0x80\<close>, zero bytes up to 56 modulo 64, and the length of the message
  in bits on eight bytes. Then the message schedule and the compression of each block of
  64 bytes.
\<close>

definition sha_pad :: "nat list \<Rightarrow> nat list" where
  "sha_pad msg = msg @ [0x80] @ replicate ((119 - length msg mod 64) mod 64) 0
                 @ bytes_of_nat 8 (8 * length msg)"

fun chunks :: "nat \<Rightarrow> 'a list \<Rightarrow> 'a list list" where
  "chunks n [] = []"
| "chunks n (x # xs) = take n (x # xs) # chunks n (drop (n - 1) xs)"

definition extend :: "32 word list \<Rightarrow> 32 word list" where
  "extend w =
     (let t = length w
      in w @ [small_sigma1 (w ! (t - 2)) + w ! (t - 7) + small_sigma0 (w ! (t - 15)) + w ! (t - 16)])"

definition schedule :: "nat list \<Rightarrow> 32 word list" where
  "schedule block = (extend ^^ 48) (map be32 (chunks 4 block))"

definition round256 :: "hash_state \<Rightarrow> 32 word \<times> 32 word \<Rightarrow> hash_state" where
  "round256 s kw =
     (case s of (a, b, c, d, e, f, g, h) \<Rightarrow>
        (let t1 = h + big_sigma1 e + ch e f g + fst kw + snd kw;
             t2 = big_sigma0 a + maj a b c
         in (t1 + t2, a, b, c, d + t1, e, f, g)))"

definition add_state :: "hash_state \<Rightarrow> hash_state \<Rightarrow> hash_state" where
  "add_state s s' =
     (case s of (a, b, c, d, e, f, g, h) \<Rightarrow>
        (case s' of (a', b', c', d', e', f', g', h') \<Rightarrow>
           (a + a', b + b', c + c', d + d', e + e', f + f', g + g', h + h')))"

definition compress :: "hash_state \<Rightarrow> nat list \<Rightarrow> hash_state" where
  "compress s block = add_state s (foldl round256 s (zip K256 (schedule block)))"

definition word_bytes :: "32 word \<Rightarrow> nat list" where
  "word_bytes w = bytes_of_nat 4 (unat w)"

definition state_bytes :: "hash_state \<Rightarrow> nat list" where
  "state_bytes s =
     (case s of (a, b, c, d, e, f, g, h) \<Rightarrow>
        word_bytes a @ word_bytes b @ word_bytes c @ word_bytes d @
        word_bytes e @ word_bytes f @ word_bytes g @ word_bytes h)"

definition sha256 :: "nat list \<Rightarrow> nat list" where
  "sha256 msg = state_bytes (foldl compress H256 (chunks 64 (sha_pad msg)))"

text \<open>
  HMAC (RFC 2104) with block size 64: a key longer than a block is hashed, and the key is
  filled with zero bytes to a block.
\<close>

definition hmac_key_block :: "nat list \<Rightarrow> nat list" where
  "hmac_key_block key =
     (let k = (if length key > 64 then sha256 key else key) in k @ replicate (64 - length k) 0)"

definition xor_byte :: "nat \<Rightarrow> nat \<Rightarrow> nat" where
  "xor_byte p b = b XOR p"

definition hmac_sha256 :: "nat list \<Rightarrow> nat list \<Rightarrow> nat list" where
  "hmac_sha256 key msg =
     (let kb = hmac_key_block key
      in sha256 (map (xor_byte 0x5C) kb @ sha256 (map (xor_byte 0x36) kb @ msg)))"

text \<open>\<open>b.toString(16).padStart(2, "0")\<close> for a byte \<open>b\<close>, and the join over the bytes.\<close>

definition hex_digit :: "nat \<Rightarrow> char" where
  "hex_digit n = ''0123456789abcdef'' ! (n mod 16)"

definition hex2 :: "nat \<Rightarrow> string" where
  "hex2 b = [hex_digit (b div 16), hex_digit (b mod 16)]"

definition hex :: "nat list \<Rightarrow> string" where
  "hex bs = concat (map hex2 bs)"

section \<open>\<open>signState\<close> and \<open>verifyState\<close>\<close>

text \<open>
  \<open>new TextEncoder().encode(s)\<close>: UTF-8, one byte for a code unit below \<open>0x80\<close> and two
  for the others of the model.
\<close>

definition utf8_encode :: "string \<Rightarrow> nat list" where
  "utf8_encode s =
     concat (map (\<lambda>c. let n = of_char c :: nat
                       in if n < 128 then [n] else [192 + n div 64, 128 + n mod 64]) s)"

text \<open>
  \<open>signState\<close>. \<open>importKey\<close> refuses key data of length zero with a \<open>DataError\<close> (Web
  Cryptography API, HMAC, import key), which rejects the promise that \<open>signState\<close>
  returns.
\<close>

definition signState :: "string \<Rightarrow> string \<Rightarrow> js_error + string" where
  "signState state secret =
     (if utf8_encode secret = [] then Inl DataError
      else
        let signature = hmac_sha256 (utf8_encode secret) (utf8_encode state);
            sigHex = hex signature
        in Inr (state @ ''.'' @ sigHex))"

text \<open>
  \<open>parseInt(s)\<close> without a radix: leading white space, a sign, \<open>0x\<close> or \<open>0X\<close> for
  radix 16, then the longest run of digits; \<open>NaN\<close>, here \<open>None\<close>, when that run is
  empty. The result is the exact integer: \<open>verifyState\<close> only compares
  \<open>now - timestamp\<close> with 600000, and for a time \<open>now\<close> from 0 to \<open>2^53\<close> that
  comparison gives the same answer on the exact integers as on the numbers of the source.
\<close>

definition js_whitespace :: "char \<Rightarrow> bool" where
  "js_whitespace c = (of_char c \<in> {0x09, 0x0A, 0x0B, 0x0C, 0x0D, 0x20, 0xA0 :: nat})"

definition digit_of :: "char \<Rightarrow> nat option" where
  "digit_of c =
     (let n = of_char c :: nat
      in if 48 \<le> n \<and> n \<le> 57 then Some (n - 48)
         else if 97 \<le> n \<and> n \<le> 122 then Some (n - 87)
         else if 65 \<le> n \<and> n \<le> 90 then Some (n - 55)
         else None)"

definition in_radix :: "nat \<Rightarrow> char \<Rightarrow> bool" where
  "in_radix r c = (case digit_of c of None \<Rightarrow> False | Some d \<Rightarrow> d < r)"

definition digits_value :: "nat \<Rightarrow> string \<Rightarrow> int" where
  "digits_value r ds =
     foldl (\<lambda>acc c. acc * int r + (case digit_of c of None \<Rightarrow> 0 | Some d \<Rightarrow> int d)) 0 ds"

definition parseInt :: "string \<Rightarrow> int option" where
  "parseInt s =
     (let s1 = dropWhile js_whitespace s;
          sign = (if take 1 s1 = ''-'' then - 1 else 1 :: int);
          s2 = (if take 1 s1 = ''-'' \<or> take 1 s1 = ''+'' then drop 1 s1 else s1);
          hex_prefix = (take 2 s2 = ''0x'' \<or> take 2 s2 = ''0X'');
          radix = (if hex_prefix then 16 else 10);
          s3 = (if hex_prefix then drop 2 s2 else s2);
          ds = takeWhile (in_radix radix) s3
      in if ds = [] then None else Some (sign * digits_value radix ds))"

text \<open>
  \<open>verifyState\<close>, with the value of \<open>Date.now()\<close> as an argument. The result \<open>None\<close>
  is \<open>null\<close>. Destructuring reads the first two parts of the split and leaves a part
  that is not there \<open>undefined\<close>.
\<close>

definition verifyState :: "string \<Rightarrow> string \<Rightarrow> int \<Rightarrow> js_error + string option" where
  "verifyState signedState secret now =
     (case split_char CHR ''.'' signedState of
        [] \<Rightarrow> Inr None
      | [state] \<Rightarrow> Inr None
      | state # signature # _ \<Rightarrow>
          if state = [] \<or> signature = [] then Inr None
          else
            (case signState state secret of
               Inl e \<Rightarrow> Inl e
             | Inr expectedSigned \<Rightarrow>
                 let expectedSig =
                       (case split_char CHR ''.'' expectedSigned of
                          _ # sig # _ \<Rightarrow> Some sig
                        | _ \<Rightarrow> None)
                 in if Some signature \<noteq> expectedSig then Inr None
                    else
                      let timestamp =
                            (case split_char CHR ''-'' state of
                               [] \<Rightarrow> None
                             | first # _ \<Rightarrow> parseInt first)
                      in if (case timestamp of None \<Rightarrow> False | Some t \<Rightarrow> now - t > 10 * 60 * 1000)
                         then Inr None
                         else Inr (Some state)))"

text \<open>\<open>verify(sign(state, secretA), secretB, now)\<close>.\<close>

definition sign_then_verify ::
    "string \<Rightarrow> string \<Rightarrow> string \<Rightarrow> int \<Rightarrow> js_error + string option" where
  "sign_then_verify state secretA secretB now =
     (case signState state secretA of
        Inl e \<Rightarrow> Inl e
      | Inr signedState \<Rightarrow> verifyState signedState secretB now)"

section \<open>The shareable URL: \<open>updateURL\<close> and \<open>loadFromURL\<close>\<close>

text \<open>
  The form of the page: the values of the inputs \<open>repo\<close>, \<open>base\<close>, \<open>head\<close> and
  \<open>path-filter\<close>.
\<close>

record form =
  repo :: string
  base :: string
  head :: string
  path_filter :: string

text \<open>\<open>s.trim()\<close>: white space and line terminators off both ends.\<close>

definition js_trim :: "string \<Rightarrow> string" where
  "js_trim s = rev (dropWhile js_whitespace (rev (dropWhile js_whitespace s)))"

text \<open>
  \<open>encodeURIComponent\<close>: letters, digits and \<open>- _ . ! ~ * ' ( )\<close> stay; every other
  code unit is written as its UTF-8 bytes, each as \<open>%\<close> and two upper-case hexadecimal
  digits. The code units of the model are below \<open>0x100\<close>, so none is a lone surrogate and
  the function does not raise.
\<close>

definition is_alnum :: "char \<Rightarrow> bool" where
  "is_alnum c =
     (let n = of_char c :: nat
      in (48 \<le> n \<and> n \<le> 57) \<or> (65 \<le> n \<and> n \<le> 90) \<or> (97 \<le> n \<and> n \<le> 122))"

definition uri_unreserved :: "char \<Rightarrow> bool" where
  "uri_unreserved c = (is_alnum c \<or> c \<in> set ''-_.!~*()'' \<or> c = CHR 0x27)"

definition upper_hex_digit :: "nat \<Rightarrow> char" where
  "upper_hex_digit n = ''0123456789ABCDEF'' ! (n mod 16)"

definition percent_byte :: "nat \<Rightarrow> string" where
  "percent_byte b = [CHR ''%'', upper_hex_digit (b div 16), upper_hex_digit (b mod 16)]"

definition encodeURIComponent :: "string \<Rightarrow> string" where
  "encodeURIComponent s =
     concat (map (\<lambda>c. if uri_unreserved c then [c]
                       else concat (map percent_byte (utf8_encode [c]))) s)"

text \<open>
  \<open>updateURL\<close>: the URL handed to \<open>history.replaceState\<close>, or \<open>None\<close> when one of
  \<open>repo\<close>, \<open>base\<close>, \<open>head\<close> is empty and the URL is left alone.
\<close>

definition updateURL :: "form \<Rightarrow> string option" where
  "updateURL f =
     (let repo = js_trim (repo f);
          base = js_trim (base f);
          head = js_trim (head f);
          filter = js_trim (path_filter f)
      in if repo \<noteq> [] \<and> base \<noteq> [] \<and> head \<noteq> [] then
           (let url = ''/gh-dir-diff/'' @ repo @ ''/'' @ base @ ''..'' @ head
            in Some (if filter \<noteq> [] then url @ ''?filter='' @ encodeURIComponent filter else url))
         else None)"

text \<open>
  The browser between \<open>updateURL\<close> and \<open>loadFromURL\<close>: \<open>window.location.pathname\<close> and
  \<open>window.location.search\<close> after \<open>history.replaceState(null, "", url)\<close>, by the URL
  standard, for a \<open>url\<close> that begins with one \<open>/\<close>. The fragment begins at the first
  \<open>#\<close> and the query at the first \<open>?\<close> before it. The function is defined where the
  parser keeps the path as it is written: all its characters are ones that the parser
  neither encodes nor reads as a delimiter, and no segment is a dot segment. In the query
  the parser writes \<open>'\<close> as \<open>%27\<close> and keeps the other printable characters of ASCII
  but \<open>"\<close>, \<open><\<close>, \<open>>\<close>.
\<close>

definition path_stable :: "char \<Rightarrow> bool" where
  "path_stable c = (is_alnum c \<or> c \<in> set ''-._~!$&()*+,;=:@/%'' \<or> c = CHR 0x27)"

definition query_stable :: "char \<Rightarrow> bool" where
  "query_stable c =
     (let n = of_char c :: nat
      in 33 \<le> n \<and> n \<le> 126 \<and> n \<noteq> 34 \<and> n \<noteq> 35 \<and> n \<noteq> 60 \<and> n \<noteq> 62)"

definition query_char :: "char \<Rightarrow> string" where
  "query_char c = (if c = CHR 0x27 then ''%27'' else [c])"

definition dot_segment :: "string \<Rightarrow> bool" where
  "dot_segment seg =
     (seg \<in> set [''.'', ''..'', ''%2e'', ''%2E'', ''.%2e'', ''.%2E'', ''%2e.'', ''%2E.'',
                 ''%2e%2e'', ''%2E%2e'', ''%2e%2E'', ''%2E%2E''])"

definition location_after :: "string \<Rightarrow> js_error + string \<times> string" where
  "location_after url =
     (let before_fragment = takeWhile (\<lambda>c. c \<noteq> CHR ''#'') url;
          path = takeWhile (\<lambda>c. c \<noteq> CHR ''?'') before_fragment;
          query = drop 1 (dropWhile (\<lambda>c. c \<noteq> CHR ''?'') before_fragment)
      in if take 1 path = ''/'' \<and> take 2 path \<noteq> ''//''
            \<and> list_all path_stable path
            \<and> \<not> list_ex dot_segment (split_char CHR ''/'' path)
            \<and> list_all query_stable query
         then Inr (path, if query = [] then [] else ''?'' @ concat (map query_char query))
         else Inl NotModelled)"

text \<open>
  \<open>new URLSearchParams(search)\<close> and \<open>get\<close>: the pieces between \<open>&\<close>, each cut at its
  first \<open>=\<close>, with \<open>+\<close> read as a space and \<open>%XX\<close> as a byte, the bytes read as UTF-8.
  Bytes that are not the UTF-8 of code units below \<open>0x100\<close> are outside the model.
\<close>

definition from_hex :: "char \<Rightarrow> nat option" where
  "from_hex c = (case digit_of c of None \<Rightarrow> None | Some d \<Rightarrow> if d < 16 then Some d else None)"

fun percent_decode :: "string \<Rightarrow> nat list" where
  "percent_decode [] = []"
| "percent_decode (c # cs) =
     (if c = CHR ''%'' then
        (case cs of
           h1 # h2 # rest \<Rightarrow>
             (case (from_hex h1, from_hex h2) of
                (Some a, Some b) \<Rightarrow> (16 * a + b) # percent_decode rest
              | _ \<Rightarrow> utf8_encode [c] @ percent_decode cs)
         | _ \<Rightarrow> utf8_encode [c] @ percent_decode cs)
      else utf8_encode [c] @ percent_decode cs)"

definition cons_char :: "char \<Rightarrow> js_error + string \<Rightarrow> js_error + string" where
  "cons_char c r = (case r of Inl e \<Rightarrow> Inl e | Inr s \<Rightarrow> Inr (c # s))"

fun utf8_decode :: "nat list \<Rightarrow> js_error + string" where
  "utf8_decode [] = Inr []"
| "utf8_decode (b # bs) =
     (if b < 128 then cons_char (char_of b) (utf8_decode bs)
      else if b = 194 \<or> b = 195 then
        (case bs of
           [] \<Rightarrow> Inl NotModelled
         | b2 # bs' \<Rightarrow>
             if 128 \<le> b2 \<and> b2 < 192
             then cons_char (char_of ((b - 192) * 64 + (b2 - 128))) (utf8_decode bs')
             else Inl NotModelled)
      else Inl NotModelled)"

definition form_decode :: "string \<Rightarrow> js_error + string" where
  "form_decode s = utf8_decode (percent_decode (map (\<lambda>c. if c = CHR ''+'' then CHR '' '' else c) s))"

fun decode_pairs :: "string list \<Rightarrow> js_error + (string \<times> string) list" where
  "decode_pairs [] = Inr []"
| "decode_pairs (piece # pieces) =
     (case form_decode (takeWhile (\<lambda>c. c \<noteq> CHR ''='') piece) of
        Inl e \<Rightarrow> Inl e
      | Inr name \<Rightarrow>
          (case form_decode (drop 1 (dropWhile (\<lambda>c. c \<noteq> CHR ''='') piece)) of
             Inl e \<Rightarrow> Inl e
           | Inr v \<Rightarrow>
               (case decode_pairs pieces of
                  Inl e \<Rightarrow> Inl e
                | Inr ps \<Rightarrow> Inr ((name, v) # ps))))"

definition URLSearchParams :: "string \<Rightarrow> js_error + (string \<times> string) list" where
  "URLSearchParams search =
     decode_pairs (filter (\<lambda>piece. piece \<noteq> [])
       (split_char CHR ''&'' (if take 1 search = ''?'' then drop 1 search else search)))"

definition params_get :: "(string \<times> string) list \<Rightarrow> string \<Rightarrow> string option" where
  "params_get params name = map_of params name"

text \<open>\<open>s.split('..')\<close>: a separator of two characters, found from the left.\<close>

fun split_pair :: "char \<Rightarrow> char \<Rightarrow> string \<Rightarrow> string list" where
  "split_pair a b [] = [[]]"
| "split_pair a b [c] = [[c]]"
| "split_pair a b (c # d # cs) =
     (if c = a \<and> d = b then [] # split_pair a b cs
      else (case split_pair a b (d # cs) of [] \<Rightarrow> [[c]] | part # parts \<Rightarrow> (c # part) # parts))"

text \<open>\<open>parts.join(sep)\<close>.\<close>

definition join_with :: "char \<Rightarrow> string list \<Rightarrow> string" where
  "join_with sep parts = (case parts of [] \<Rightarrow> [] | p # ps \<Rightarrow> p @ concat (map (\<lambda>q. sep # q) ps))"

text \<open>
  \<open>loadFromURL\<close>, from \<open>window.location.pathname\<close> and \<open>window.location.search\<close>: the
  values it writes into the form, or \<open>None\<close> when it leaves the form alone.
\<close>

definition path_form :: "string \<Rightarrow> (string \<times> string) list \<Rightarrow> form option" where
  "path_form pathname params =
     (if take 13 pathname = ''/gh-dir-diff/'' \<and> length pathname > 13 then
        (let path0 = drop 13 pathname;
             path = (if path0 \<noteq> [] \<and> last path0 = CHR ''/'' then butlast path0 else path0)
         in case split_pair CHR ''.'' CHR ''.'' path of
              [part0, part1] \<Rightarrow>
                (case split_char CHR ''/'' part0 of
                   segment0 # segment1 # segments \<Rightarrow>
                     Some \<lparr>repo = segment0 @ ''/'' @ segment1,
                           base = join_with CHR ''/'' segments,
                           head = part1,
                           path_filter = or_else (params_get params ''filter'') []\<rparr>
                 | _ \<Rightarrow> None)
            | _ \<Rightarrow> None)
      else None)"

definition loadFromURL :: "string \<Rightarrow> string \<Rightarrow> js_error + form option" where
  "loadFromURL pathname search =
     (case URLSearchParams search of
        Inl e \<Rightarrow> Inl e
      | Inr params \<Rightarrow>
          (case path_form pathname params of
             Some f \<Rightarrow> Inr (Some f)
           | None \<Rightarrow>
               if truthy (params_get params ''repo'') then
                 Inr (Some \<lparr>repo = or_else (params_get params ''repo'') [],
                             base = or_else (params_get params ''base'') [],
                             head = or_else (params_get params ''head'') [],
                             path_filter = or_else (params_get params ''filter'') []\<rparr>)
               else Inr None))"

section \<open>Notions for the proofs about the state token\<close>

text \<open>The signature that \<open>signState\<close> appends, and the expiry test of \<open>verifyState\<close>.\<close>

definition sig_hex :: "string \<Rightarrow> string \<Rightarrow> string" where
  "sig_hex state secret = hex (hmac_sha256 (utf8_encode secret) (utf8_encode state))"

definition expired :: "string \<Rightarrow> int \<Rightarrow> bool" where
  "expired state now =
     (case parseInt (takeWhile (\<lambda>c. c \<noteq> CHR ''-'') state) of
        None \<Rightarrow> False
      | Some t \<Rightarrow> now - t > 600000)"

section \<open>Notions for the proofs about the shareable URL\<close>

text \<open>The query as the URL parser writes it: \<open>'\<close> as \<open>%27\<close>, the rest as it is.\<close>

definition query_text :: "string \<Rightarrow> string" where
  "query_text s = concat (map query_char s)"

text \<open>No \<open>..\<close> in a string: \<open>split('..')\<close> finds no separator.\<close>

fun no_dotdot :: "string \<Rightarrow> bool" where
  "no_dotdot [] = True"
| "no_dotdot [c] = True"
| "no_dotdot (c # d # cs) = (\<not> (c = CHR ''.'' \<and> d = CHR ''.'') \<and> no_dotdot (d # cs))"

section \<open>Example inputs\<close>

definition ex_files :: "file_change list" where
  "ex_files =
     [\<lparr>filename = ''src/a.ts'', previous_filename = None, status = ''modified'',
        patch = Some ''@@ -1 +1,3 @@'', additions = Some 3, deletions = Some 1,
        mode = None, previous_mode = None\<rparr>,
      \<lparr>filename = ''README.md'', previous_filename = None, status = ''modified'',
        patch = Some ''@@ -1 +1 @@'', additions = Some 7, deletions = Some 7,
        mode = None, previous_mode = None\<rparr>,
      \<lparr>filename = ''src/logo.png'', previous_filename = None, status = ''modified'',
        patch = None, additions = Some 0, deletions = Some 2,
        mode = None, previous_mode = None\<rparr>,
      \<lparr>filename = ''src/new.ts'', previous_filename = None, status = ''added'',
        patch = Some ''@@ -0,0 +1,5 @@'', additions = Some 5, deletions = Some 0,
        mode = None, previous_mode = None\<rparr>]"

definition ex_form :: form where
  "ex_form = \<lparr>repo = ''o/r'', base = ''main'', head = ''feat/x'', path_filter = ''**/*.ts''\<rparr>"

text \<open>A head that holds a \<open>#\<close>, and a head that holds \<open>..\<close>.\<close>

definition ex_form_hash :: form where
  "ex_form_hash = \<lparr>repo = ''o/r'', base = ''main'', head = ''fix#12'', path_filter = []\<rparr>"

definition ex_form_dots :: form where
  "ex_form_dots = \<lparr>repo = ''o/r'', base = ''main'', head = ''v1..v2'', path_filter = []\<rparr>"

section \<open>Properties of the unified diff\<close>

lemma unified_loop_concat:
  "unified_loop acc files = acc @ concat (map file_section files)"
  by (induction files arbitrary: acc) simp_all

lemma unifiedDiff_concat: "unifiedDiff files = concat (map file_section files)"
  by (simp add: unifiedDiff_def unified_loop_concat)

text \<open>
  C1 (as amended). A file with status \<open>renamed\<close> whose \<open>patch\<close> field is absent appends
  nothing: the first test of the loop skips it. When the field is there, the section is
  the header naming the old path under \<open>a/\<close> and the new path under \<open>b/\<close>, the
  \<open>rename from\<close> and \<open>rename to\<close> lines, and, only for a patch that is not the empty
  string, the \<open>---\<close> and \<open>+++\<close> lines followed by the patch.
\<close>

theorem renamed_section:
  assumes "status file = ''renamed''"
  shows "file_section file =
    (case patch file of
       None \<Rightarrow> []
     | Some p \<Rightarrow>
         ''diff --git a/'' @ or_else (previous_filename file) (filename file)
           @ '' b/'' @ filename file @ nl @
         ''rename from '' @ or_else (previous_filename file) (filename file) @ nl @
         ''rename to '' @ filename file @ nl @
         (if p = [] then []
          else ''--- a/'' @ or_else (previous_filename file) (filename file) @ nl @
               ''+++ b/'' @ filename file @ nl @
               p @ nl))"
  using assms by (simp add: file_section_def truthy_def Let_def split: option.splits)

text \<open>C1, at a rename with an empty patch and at a rename with a patch.\<close>

theorem renamed_section_witness:
  "file_section \<lparr>filename = ''b.txt'', previous_filename = Some ''a.txt'', status = ''renamed'',
      patch = Some [], additions = Some 0, deletions = Some 0, mode = None, previous_mode = None\<rparr>
   = ''diff --git a/a.txt b/b.txt'' @ nl @ ''rename from a.txt'' @ nl @ ''rename to b.txt'' @ nl
   \<and> file_section \<lparr>filename = ''b.txt'', previous_filename = Some ''a.txt'', status = ''renamed'',
      patch = Some ''@@ -1 +1 @@'', additions = Some 1, deletions = Some 1, mode = None, previous_mode = None\<rparr>
   = ''diff --git a/a.txt b/b.txt'' @ nl @ ''rename from a.txt'' @ nl @ ''rename to b.txt'' @ nl
     @ ''--- a/a.txt'' @ nl @ ''+++ b/b.txt'' @ nl @ ''@@ -1 +1 @@'' @ nl"
  using
    renamed_section [of "\<lparr>filename = ''b.txt'', previous_filename = Some ''a.txt'', status = ''renamed'',
      patch = Some [], additions = Some 0, deletions = Some 0, mode = None, previous_mode = None\<rparr>"]
    renamed_section [of "\<lparr>filename = ''b.txt'', previous_filename = Some ''a.txt'', status = ''renamed'',
      patch = Some ''@@ -1 +1 @@'', additions = Some 1, deletions = Some 1, mode = None, previous_mode = None\<rparr>"]
  by (simp add: or_else_def)

text \<open>
  C1 as stated fails: a renamed file without a patch gets no section at all, although it
  is in the filtered set and is counted.
\<close>

theorem renamed_without_patch_counterexample:
  "file_section \<lparr>filename = ''b.txt'', previous_filename = Some ''a.txt'', status = ''renamed'',
      patch = None, additions = Some 0, deletions = Some 0, mode = None, previous_mode = None\<rparr> = []
   \<and> loadDiff [\<lparr>filename = ''b.txt'', previous_filename = Some ''a.txt'', status = ''renamed'',
      patch = None, additions = Some 0, deletions = Some 0, mode = None, previous_mode = None\<rparr>] []
     = \<lparr>stats = Summary 1 0 0, rendered = [], error = None\<rparr>"
  by (simp add: file_section_def loadDiff_def filtered_files_def unifiedDiff_def count_or_zero_def
        number_add_def to_double_def)

section \<open>\<open>matchGlob\<close> agrees with the direct matcher\<close>

lemma segment_loop_items:
  "segment_loop acc seg = acc @ concat (map item_src (segment_items seg))"
  by (induction seg arbitrary: acc) (simp_all add: segment_items_def)

lemma segments_loop_items:
  "segments_loop acc segs = acc @ concat (map item_src (glob_items segs))"
  by (induction segs arbitrary: acc)
     (simp_all add: segment_loop_items Let_def escapeRegex_def backslash_def)

lemma wild_free_segment_items: "\<forall>it \<in> set (segment_items seg). wild_free it"
  by (auto simp: segment_items_def)

lemma wild_free_glob_items: "\<forall>it \<in> set (glob_items segs). wild_free it"
  by (induction segs) (auto simp: wild_free_segment_items)

lemma prepend_Nil [simp]: "prepend [] r = r"
  by (simp add: prepend_def split: sum.splits)

lemma cons_tok_prepend: "cons_tok t (prepend ts r) = prepend (t # ts) r"
  by (simp add: prepend_def cons_tok_def split: sum.splits)

lemma cons_tok_as_prepend: "cons_tok t r = prepend [t] r"
  by (simp add: prepend_def cons_tok_def split: sum.splits)

lemma prepend_prepend: "prepend ts (prepend us r) = prepend (ts @ us) r"
  by (simp add: prepend_def split: sum.splits)

lemma lex_literal:
  assumes "c \<noteq> CHR ''*''" "c \<noteq> CHR ''?''"
  shows "lex (escapeRegex [c] @ rest) = prepend [TChr c] (lex rest)"
proof (cases "c \<in> set (''.+^${}()|[]'' @ [backslash])")
  case True
  then have "c \<in> set syntax_chars" by (auto simp: syntax_chars_def)
  with True show ?thesis
    by (simp add: escapeRegex_def cons_tok_as_prepend)
next
  case False
  then show ?thesis using assms
    by (simp add: escapeRegex_def cons_tok_as_prepend)
qed

lemma lex_item:
  "wild_free it \<Longrightarrow> lex (item_src it @ rest) = prepend (item_tokens it) (lex rest)"
proof (cases it)
  case (Lit c)
  assume "wild_free it"
  with Lit show ?thesis by (simp add: lex_literal)
qed (simp_all add: backslash_def cons_tok_as_prepend prepend_prepend)

lemma lex_items:
  "\<forall>it \<in> set its. wild_free it \<Longrightarrow>
   lex (concat (map item_src its) @ rest) = prepend (concat (map item_tokens its)) (lex rest)"
  by (induction its) (simp_all add: lex_item prepend_prepend)

lemma parse_item:
  "parse (item_tokens it @ ts) (alts, cur, q) stack
   = parse ts (alts, item_term it # cur, item_tail it) stack"
  by (cases it) (simp_all add: quantify_def close_frame_def)

lemma parse_items:
  "\<exists>q'. parse (concat (map item_tokens its) @ ts) (alts, cur, q) stack
        = parse ts (alts, rev (map item_term its) @ cur, q') stack"
proof (induction its arbitrary: cur q)
  case Nil
  show ?case by auto
next
  case (Cons it its)
  obtain q' where
    "parse (concat (map item_tokens its) @ ts) (alts, item_term it # cur, item_tail it) stack
     = parse ts (alts, rev (map item_term its) @ item_term it # cur, q') stack"
    using Cons.IH by blast
  then show ?case by (auto simp: parse_item)
qed

lemma RegExp_items:
  assumes "\<forall>it \<in> set its. wild_free it"
  shows "RegExp (''^'' @ concat (map item_src its) @ ''$'')
         = Inr (Alt [Seq (Bol # map item_term its @ [Eol])])"
proof -
  have "lex (''^'' @ concat (map item_src its) @ ''$'')
        = Inr (TBol # concat (map item_tokens its) @ [TEol])"
    using lex_items[OF assms, of "''$''"]
    by (simp add: backslash_def cons_tok_def prepend_def)
  moreover obtain q' where
    "parse (concat (map item_tokens its) @ [TEol]) ([], [Bol], NoAtom) []
     = parse [TEol] ([], rev (map item_term its) @ [Bol], q') []"
    using parse_items by blast
  ultimately show ?thesis
    by (simp add: RegExp_def close_frame_def)
qed

lemma accepts_Nil [simp]: "accepts [] st = (snd st = [])"
  by (simp add: accepts_def)

lemma accepts_Cons: "accepts (f # fs) st = (\<exists>st' \<in> set (f st). accepts fs st')"
  by (auto simp: accepts_def)

lemma run_seq_append:
  "set (run_seq (fs @ gs) st) = (\<Union>st' \<in> set (run_seq fs st). set (run_seq gs st'))"
  by (induction fs arbitrary: st) auto

lemma run_seq_Eol_nonempty:
  "(run_seq (fs @ [run Eol]) st \<noteq> []) = accepts fs st"
proof -
  have "(run_seq (fs @ [run Eol]) st \<noteq> []) = (set (run_seq (fs @ [run Eol]) st) \<noteq> {})"
    by simp
  also have "\<dots> = accepts fs st"
    unfolding run_seq_append by (auto simp: accepts_def)
  finally show ?thesis .
qed

lemma star_step_Nil: "star (step P) (b, []) = [(b, [])]"
  by (simp add: star_def)

lemma star_step_Cons:
  "star (step P) (b, x # xs) = (b, x # xs) # (if P x then star (step P) (False, xs) else [])"
  by (simp add: star_def step_def)

lemma accepts_step:
  "accepts (step P # fs) (b, s) = (case s of [] \<Rightarrow> False | x # xs \<Rightarrow> P x \<and> accepts fs (False, xs))"
  by (auto simp: accepts_Cons step_def split: list.splits)

lemma accepts_star_step_Nil:
  "accepts (star (step P) # fs) (b, []) = accepts fs (b, [])"
  by (simp add: accepts_Cons star_step_Nil)

lemma accepts_star_step_Cons:
  "accepts (star (step P) # fs) (b, x # xs)
   = (accepts fs (b, x # xs) \<or> (P x \<and> accepts (star (step P) # fs) (False, xs)))"
  by (auto simp: accepts_Cons star_step_Cons)

lemma accepts_dirs_Nil: "accepts_dirs fs (b, []) = False"
  by (simp add: accepts_dirs_def accepts_star_step_Nil accepts_step)

lemma accepts_dirs_Cons:
  "accepts_dirs fs (b, x # xs)
   = ((x = CHR ''/'' \<and> accepts fs (False, xs)) \<or> (\<not> line_terminator x \<and> accepts_dirs fs (False, xs)))"
  by (simp add: accepts_dirs_def accepts_star_step_Cons accepts_step)

lemma accepts_DirsOpt:
  "accepts (run (item_term DirsOpt) # fs) st = (accepts fs st \<or> accepts_dirs fs st)"
  by (auto simp: accepts_Cons accepts_dirs_def accepts_def)

lemma accepts_items:
  "accepts (map (run \<circ> item_term) its) (b, s) = items_match its s"
  and "accepts_dirs (map (run \<circ> item_term) its) (b, s) = dirs_match its s"
proof (induction its s and its s arbitrary: b and b rule: items_match_dirs_match.induct)
  case (1 s)
  show ?case by simp
next
  case (2 c "is" s)
  then show ?case by (simp add: accepts_step split: list.splits)
next
  case (3 "is" s)
  then show ?case by (simp add: accepts_step split: list.splits)
next
  case (4 "is" s)
  then show ?case
    by (cases s) (simp_all add: accepts_star_step_Nil accepts_star_step_Cons)
next
  case (5 "is" s)
  then show ?case
    by (cases s) (simp_all add: accepts_star_step_Nil accepts_star_step_Cons)
next
  case (6 "is" s)
  then show ?case
    using accepts_DirsOpt by simp
next
  case (7 "is")
  show ?case by (simp add: accepts_dirs_Nil)
next
  case (8 "is" x xs)
  then show ?case by (simp add: accepts_dirs_Cons)
qed

lemma test_anchored:
  "test (Alt [Seq (Bol # rs @ [Eol])]) s = accepts (map run rs) (True, s)"
proof -
  have later: "run (Alt [Seq (Bol # rs @ [Eol])]) (k = 0, drop k s) = []" if "k \<noteq> 0" for k
    using that by simp
  have first: "(run (Alt [Seq (Bol # rs @ [Eol])]) (True, s) \<noteq> []) = accepts (map run rs) (True, s)"
    using run_seq_Eol_nonempty[of "map run rs" "(True, s)"] by simp
  have "test (Alt [Seq (Bol # rs @ [Eol])]) s
        = (\<exists>k < Suc (length s). run (Alt [Seq (Bol # rs @ [Eol])]) (k = 0, drop k s) \<noteq> [])"
    by (auto simp: test_def list_ex_iff)
  also have "\<dots> = (run (Alt [Seq (Bol # rs @ [Eol])]) (True, s) \<noteq> [])"
  proof
    assume "\<exists>k < Suc (length s). run (Alt [Seq (Bol # rs @ [Eol])]) (k = 0, drop k s) \<noteq> []"
    then obtain k where k: "run (Alt [Seq (Bol # rs @ [Eol])]) (k = 0, drop k s) \<noteq> []" by blast
    then have "k = 0" using later by blast
    with k show "run (Alt [Seq (Bol # rs @ [Eol])]) (True, s) \<noteq> []" by simp
  next
    assume "run (Alt [Seq (Bol # rs @ [Eol])]) (True, s) \<noteq> []"
    then have "run (Alt [Seq (Bol # rs @ [Eol])]) ((0::nat) = 0, drop 0 s) \<noteq> []" by simp
    then show "\<exists>k < Suc (length s). run (Alt [Seq (Bol # rs @ [Eol])]) (k = 0, drop k s) \<noteq> []"
      by blast
  qed
  finally show ?thesis using first by simp
qed

lemma matchGlob_direct: "matchGlob pattern path = Inr (direct_match pattern path)"
proof (cases "pattern = []")
  case True
  then show ?thesis by (simp add: matchGlob_def direct_match_def)
next
  case False
  let ?its = "glob_items (split_char CHR ''/'' pattern)"
  have src: "segments_loop [] (split_char CHR ''/'' pattern) = concat (map item_src ?its)"
    by (simp add: segments_loop_items)
  have "RegExp (''^'' @ concat (map item_src ?its) @ ''$'')
        = Inr (Alt [Seq (Bol # map item_term ?its @ [Eol])])"
    by (rule RegExp_items) (rule wild_free_glob_items)
  then show ?thesis
    using False
    by (simp add: matchGlob_def direct_match_def src test_anchored accepts_items)
qed

text \<open>
  C4. A final \<open>**\<close> is written as \<open>.*\<close>, and \<open>.\<close> does not match a line terminator:
  the pattern \<open>**\<close> rejects a path with a line feed in it.
\<close>

theorem final_doublestar_line_feed:
  "matchGlob ''**'' [CHR ''a'', CHR 0x0A, CHR ''b''] = Inr False"
  by (simp add: matchGlob_direct direct_match_def line_terminator_def)

text \<open>The three examples of the specification.\<close>

lemma matchGlob_examples:
  "matchGlob ''**/*.go'' ''a/b/c.go'' = Inr True"
  "matchGlob ''*.go'' ''a/b/c.go'' = Inr False"
  "matchGlob ''a/**/z'' ''a/z'' = Inr True"
  by (simp_all add: matchGlob_direct direct_match_def segment_items_def line_terminator_def)

lemma split_char_not_Nil [simp]: "split_char sep s \<noteq> []"
  by (induction s) (auto split: list.splits)

lemma split_char_Cons:
  "split_char sep (c # cs) =
     (if c = sep then [] # split_char sep cs
      else (c # hd (split_char sep cs)) # tl (split_char sep cs))"
  by (cases "split_char sep cs") simp_all

lemma split_char_hd_subset: "set (hd (split_char sep s)) \<subseteq> set s"
  by (induction s) (auto simp: split_char_Cons simp del: split_char.simps(2))

lemma glob_items_literal:
  assumes "CHR ''*'' \<notin> set p" "CHR ''?'' \<notin> set p"
  shows "glob_items (split_char CHR ''/'' p) = map Lit p"
  using assms
proof (induction p)
  case Nil
  show ?case by (simp add: segment_items_def)
next
  case (Cons c cs)
  let ?r = "split_char CHR ''/'' cs"
  have ih: "glob_items ?r = map Lit cs" using Cons by simp
  have r: "?r = hd ?r # tl ?r" by simp
  have "CHR ''*'' \<notin> set (hd ?r)" using split_char_hd_subset[of "CHR ''/''" cs] Cons.prems by auto
  then have h: "hd ?r \<noteq> ''**''" by auto
  show ?case
  proof (cases "c = CHR ''/''")
    case True
    then show ?thesis using ih by (simp add: segment_items_def)
  next
    case False
    have c: "c \<noteq> CHR ''*''" "c \<noteq> CHR ''?''" using Cons.prems by auto
    have "glob_items (split_char CHR ''/'' (c # cs)) = glob_items ((c # hd ?r) # tl ?r)"
      using False by (simp only: split_char_Cons if_False)
    also have "\<dots> = Lit c # (segment_items (hd ?r)
                 @ (if tl ?r \<noteq> [] then [Lit CHR ''/''] else []) @ glob_items (tl ?r))"
      using c by (simp add: segment_items_def)
    also have "\<dots> = Lit c # glob_items ?r"
      by (subst (3) r, subst glob_items.simps) (simp add: h)
    also have "\<dots> = Lit c # map Lit cs"
      using ih by simp
    finally show ?thesis by simp
  qed
qed

lemma items_match_literal: "items_match (map Lit p) s = (s = p)"
  by (induction p arbitrary: s) (auto split: list.splits)

text \<open>
  C5. \<open>matchGlob\<close> computes the direct matcher, in which every character of a segment
  other than \<open>*\<close> and \<open>?\<close> is compared with the path by equality. So a pattern without
  \<open>*\<close> and \<open>?\<close> matches exactly one path, the pattern itself, whatever metacharacters of
  regular expressions it holds.
\<close>

theorem metacharacters_literal:
  "matchGlob pattern path = Inr (direct_match pattern path)
   \<and> (pattern \<noteq> [] \<and> CHR ''*'' \<notin> set pattern \<and> CHR ''?'' \<notin> set pattern \<longrightarrow>
        matchGlob pattern path = Inr (path = pattern))"
  by (simp add: matchGlob_direct direct_match_def glob_items_literal items_match_literal)

text \<open>C5, at \<open>a.b\<close> and at a pattern made of metacharacters.\<close>

theorem metacharacters_literal_witness:
  "matchGlob ''a.b'' ''axb'' = Inr False \<and> matchGlob ''a.b'' ''a.b'' = Inr True
   \<and> matchGlob ''(a|b)+[c]{2}^$'' ''(a|b)+[c]{2}^$'' = Inr True"
  using metacharacters_literal [of "''a.b''" "''axb''"] metacharacters_literal [of "''a.b''" "''a.b''"]
    metacharacters_literal [of "''(a|b)+[c]{2}^$''" "''(a|b)+[c]{2}^$''"]
  by (simp add: direct_match_def segment_items_def)

section \<open>Properties of the file list and the totals\<close>

lemma filter_files_direct:
  "filter_files pathFilter files = Inr (filter (\<lambda>f. direct_match pathFilter (filename f)) files)"
  by (induction files) (simp_all add: matchGlob_direct)

lemma filtered_files_direct:
  "filtered_files pathFilter files = Inr (filter (\<lambda>f. direct_match pathFilter (filename f)) files)"
  by (simp add: filtered_files_def filter_files_direct direct_match_def)

lemma number_add_exact:
  "0 \<le> a \<Longrightarrow> 0 \<le> b \<Longrightarrow> a + b \<le> 2 ^ 53 \<Longrightarrow> number_add a b = a + b"
  by (simp add: number_add_def to_double_def)

lemma sum_list_nonneg_int:
  "\<forall>f \<in> set files. 0 \<le> g f \<Longrightarrow> (0::int) \<le> sum_list (map g files)"
  by (induction files) simp_all

lemma foldl_number_add:
  assumes "\<forall>f \<in> set files. 0 \<le> g f" and "0 \<le> a"
    and "a + sum_list (map g files) \<le> 2 ^ 53"
  shows "foldl (\<lambda>sum f. number_add sum (g f)) a files = a + sum_list (map g files)"
  using assms
proof (induction files arbitrary: a)
  case Nil
  show ?case by simp
next
  case (Cons f files)
  have rest: "0 \<le> sum_list (map g files)"
    using Cons.prems(1) by (intro sum_list_nonneg_int) simp
  have f: "0 \<le> g f" using Cons.prems(1) by simp
  have "a + g f \<le> 2 ^ 53" using Cons.prems(3) rest by simp
  then have step: "number_add a (g f) = a + g f"
    using Cons.prems(2) f by (intro number_add_exact)
  have "foldl (\<lambda>sum f. number_add sum (g f)) (a + g f) files = (a + g f) + sum_list (map g files)"
    using Cons.prems f by (intro Cons.IH) simp_all
  then show ?case by (simp add: step)
qed

lemma loadDiff_Summary:
  assumes "filtered_files pathFilter compareFiles = Inr files" and "files \<noteq> []"
    and "\<forall>f \<in> set files. 0 \<le> count_or_zero (additions f) \<and> 0 \<le> count_or_zero (deletions f)"
    and "(\<Sum>f\<leftarrow>files. count_or_zero (additions f)) \<le> 2 ^ 53"
    and "(\<Sum>f\<leftarrow>files. count_or_zero (deletions f)) \<le> 2 ^ 53"
  shows "loadDiff compareFiles pathFilter =
         \<lparr>stats = Summary (length files)
                    (\<Sum>f\<leftarrow>files. count_or_zero (additions f))
                    (\<Sum>f\<leftarrow>files. count_or_zero (deletions f)),
          rendered = unifiedDiff files, error = None\<rparr>"
proof -
  have "foldl (\<lambda>sum f. number_add sum (count_or_zero (additions f))) 0 files
        = 0 + (\<Sum>f\<leftarrow>files. count_or_zero (additions f))"
    using assms(3,4) by (intro foldl_number_add) simp_all
  moreover have "foldl (\<lambda>sum f. number_add sum (count_or_zero (deletions f))) 0 files
        = 0 + (\<Sum>f\<leftarrow>files. count_or_zero (deletions f))"
    using assms(3,5) by (intro foldl_number_add) simp_all
  ultimately show ?thesis
    using assms(1,2) by (simp add: loadDiff_def)
qed

lemma filtered_files_patch:
  assumes "filtered_files pathFilter compareFiles = Inr files"
  shows "filtered_files pathFilter (map (\<lambda>f. f\<lparr>patch := g f\<rparr>) compareFiles)
         = Inr (map (\<lambda>f. f\<lparr>patch := g f\<rparr>) files)"
proof -
  have "files = filter (\<lambda>f. direct_match pathFilter (filename f)) compareFiles"
    using assms by (simp add: filtered_files_direct)
  then show ?thesis
    by (simp add: filtered_files_direct filter_map comp_def)
qed

text \<open>
  C6. For counts that are not negative and whose sums do not exceed \<open>2^53\<close>, where the
  additions of the source are exact: the statistics panel shows the number of files of the
  filtered set and the sums of \<open>additions\<close> and \<open>deletions\<close> over every file of that
  set, also over the files whose section is empty; putting other patches (or none) on the
  files changes neither total.
\<close>

theorem totals_over_filtered_files:
  assumes "filtered_files pathFilter compareFiles = Inr files" and "files \<noteq> []"
    and "\<forall>f \<in> set files. 0 \<le> count_or_zero (additions f) \<and> 0 \<le> count_or_zero (deletions f)"
    and "(\<Sum>f\<leftarrow>files. count_or_zero (additions f)) \<le> 2 ^ 53"
    and "(\<Sum>f\<leftarrow>files. count_or_zero (deletions f)) \<le> 2 ^ 53"
  shows "stats (loadDiff compareFiles pathFilter) =
           Summary (length files)
             (\<Sum>f\<leftarrow>files. count_or_zero (additions f))
             (\<Sum>f\<leftarrow>files. count_or_zero (deletions f))
         \<and> rendered (loadDiff compareFiles pathFilter) = concat (map file_section files)
         \<and> stats (loadDiff (map (\<lambda>f. f\<lparr>patch := g f\<rparr>) compareFiles) pathFilter) =
           stats (loadDiff compareFiles pathFilter)"
proof -
  let ?upd = "map (\<lambda>f. f\<lparr>patch := g f\<rparr>)"
  have 1: "loadDiff compareFiles pathFilter =
         \<lparr>stats = Summary (length files)
                    (\<Sum>f\<leftarrow>files. count_or_zero (additions f))
                    (\<Sum>f\<leftarrow>files. count_or_zero (deletions f)),
          rendered = unifiedDiff files, error = None\<rparr>"
    using assms by (rule loadDiff_Summary)
  have 2: "loadDiff (?upd compareFiles) pathFilter =
         \<lparr>stats = Summary (length (?upd files))
                    (\<Sum>f\<leftarrow>?upd files. count_or_zero (additions f))
                    (\<Sum>f\<leftarrow>?upd files. count_or_zero (deletions f)),
          rendered = unifiedDiff (?upd files), error = None\<rparr>"
    using filtered_files_patch[OF assms(1)] assms(2-5)
    by (intro loadDiff_Summary) (simp_all add: comp_def)
  show ?thesis
    by (simp add: 1 2 comp_def unifiedDiff_concat)
qed

lemma ex_filtered:
  "filtered_files ''src/*'' ex_files = Inr [ex_files ! 0, ex_files ! 2, ex_files ! 3]"
  by (simp add: filtered_files_direct ex_files_def direct_match_def segment_items_def)

text \<open>
  C6, at four files of which the filter \<open>src/*\<close> keeps three, with additions 3, 0, 5 and
  deletions 1, 2, 0; the second of them has no patch and is skipped in the diff.
\<close>

theorem totals_over_filtered_files_witness:
  "stats (loadDiff ex_files ''src/*'') = Summary 3 8 3
   \<and> stats (loadDiff (map (\<lambda>f. f\<lparr>patch := None\<rparr>) ex_files) ''src/*'') = Summary 3 8 3"
  using totals_over_filtered_files [OF ex_filtered, of "\<lambda>f. None"]
  by (simp add: ex_files_def count_or_zero_def)

lemma loadDiff_no_error: "error (loadDiff compareFiles pathFilter) = None"
  by (simp add: loadDiff_def filtered_files_direct)

lemma file_section_default_mode:
  "mode file = None \<Longrightarrow> file_section file = file_section (file\<lparr>mode := Some ''100644''\<rparr>)"
  unfolding file_section_def by (simp add: or_else_def Let_def)

lemma file_section_default_previous_mode:
  "previous_mode file = None \<Longrightarrow>
   file_section file = file_section (file\<lparr>previous_mode := Some ''100644''\<rparr>)"
  unfolding file_section_def by (simp add: or_else_def Let_def)

text \<open>
  C7. \<open>loadDiff\<close> never reaches its \<open>catch\<close> branch on account of the file list or the
  filter: the filter returns a list for every pattern. When that list is empty the page
  shows the message ``No files match the filter.'' and an empty diff. A file without
  \<open>mode\<close> or \<open>previous_mode\<close> gets the section it would get with \<open>100644\<close>.
\<close>

theorem loadDiff_never_raises:
  "error (loadDiff compareFiles pathFilter) = None
   \<and> (\<exists>files. filtered_files pathFilter compareFiles = Inr files)
   \<and> (filtered_files pathFilter compareFiles = Inr [] \<longrightarrow>
        loadDiff compareFiles pathFilter = \<lparr>stats = NoFilesMatch, rendered = [], error = None\<rparr>)
   \<and> (mode file = None \<longrightarrow> file_section file = file_section (file\<lparr>mode := Some ''100644''\<rparr>))
   \<and> (previous_mode file = None \<longrightarrow>
        file_section file = file_section (file\<lparr>previous_mode := Some ''100644''\<rparr>))"
  using file_section_default_mode [of "file"] file_section_default_previous_mode [of "file"]
  by (simp add: loadDiff_def filtered_files_direct)

text \<open>C7, at a filter that no file passes, and at an added file without \<open>mode\<close>.\<close>

theorem loadDiff_never_raises_witness:
  "error (loadDiff ex_files ''docs/**'') = None
   \<and> filtered_files ''docs/**'' ex_files = Inr []
   \<and> loadDiff ex_files ''docs/**'' = \<lparr>stats = NoFilesMatch, rendered = [], error = None\<rparr>
   \<and> file_section (ex_files ! 3)
       = ''diff --git a/src/new.ts b/src/new.ts'' @ nl @ ''new file mode 100644'' @ nl
         @ ''--- /dev/null'' @ nl @ ''+++ b/src/new.ts'' @ nl @ ''@@ -0,0 +1,5 @@'' @ nl"
proof -
  have e: "filtered_files ''docs/**'' ex_files = Inr []"
    by (simp add: filtered_files_direct ex_files_def direct_match_def segment_items_def)
  have m: "mode (ex_files ! 3) = None" by (simp add: ex_files_def)
  show ?thesis
    using loadDiff_never_raises [of ex_files "''docs/**''" "ex_files ! 3"] e m
    by (simp add: ex_files_def file_section_def or_else_def)
qed

section \<open>Properties of \<open>signState\<close> and \<open>verifyState\<close>\<close>

lemma split_char_no_sep: "sep \<notin> set s \<Longrightarrow> split_char sep s = [s]"
  by (induction s) auto

lemma split_char_append:
  "sep \<notin> set a \<Longrightarrow> split_char sep (a @ sep # b) = a # split_char sep b"
  by (induction a) auto

lemma split_char_parts: "x \<in> set (split_char sep s) \<Longrightarrow> sep \<notin> set x"
  by (induction s arbitrary: x) (auto split: if_splits list.splits)

lemma split_char_first:
  "split_char sep s = p # ps \<Longrightarrow> p = takeWhile (\<lambda>c. c \<noteq> sep) s"
  by (induction s arbitrary: p ps) (auto split: if_splits list.splits)

lemma hex_digit_in: "hex_digit n \<in> set ''0123456789abcdef''"
proof -
  have "n mod 16 < length ''0123456789abcdef''" by simp
  then show ?thesis unfolding hex_digit_def by (rule nth_mem)
qed

lemma hex_Nil [simp]: "hex [] = []"
  by (simp add: hex_def)

lemma hex_Cons [simp]: "hex (b # bs) = hex_digit (b div 16) # hex_digit (b mod 16) # hex bs"
  by (simp add: hex_def hex2_def)

lemma subset_Cons2: "x \<in> A \<Longrightarrow> y \<in> A \<Longrightarrow> set zs \<subseteq> A \<Longrightarrow> set (x # y # zs) \<subseteq> A"
  by simp

lemma set_hex: "set (hex bs) \<subseteq> set ''0123456789abcdef''"
proof (induction bs)
  case Nil
  show ?case by simp
next
  case (Cons b bs)
  have "hex_digit (b div 16) \<in> set ''0123456789abcdef''"
       "hex_digit (b mod 16) \<in> set ''0123456789abcdef''"
    by (rule hex_digit_in)+
  with Cons show ?case unfolding hex_Cons by (intro subset_Cons2)
qed

lemma dot_notin_hex: "CHR ''.'' \<notin> set (hex bs)"
  using set_hex[of bs] by auto

lemma length_hex: "length (hex bs) = 2 * length bs"
  by (induction bs) simp_all

lemma hex_digit_inj:
  assumes "hex_digit m = hex_digit n" "m < 16" "n < 16"
  shows "m = n"
proof -
  have d: "distinct ''0123456789abcdef''" by simp
  have "''0123456789abcdef'' ! m = ''0123456789abcdef'' ! n"
    using assms by (simp add: hex_digit_def)
  then show ?thesis using assms(2,3) d
    by (simp add: nth_eq_iff_index_eq)
qed

lemma byte_eq:
  assumes "hex_digit (a div 16) = hex_digit (b div 16)"
    and "hex_digit (a mod 16) = hex_digit (b mod 16)" and "a < 256" and "b < 256"
  shows "a = b"
proof -
  have "a div 16 = b div 16"
    using assms by (intro hex_digit_inj) simp_all
  moreover have "a mod 16 = b mod 16"
    using assms by (intro hex_digit_inj) simp_all
  ultimately show ?thesis by (metis div_mult_mod_eq)
qed

lemma hex_inj:
  assumes "hex as = hex bs" "\<forall>a \<in> set as. a < 256" "\<forall>b \<in> set bs. b < 256"
  shows "as = bs"
  using assms
proof (induction as arbitrary: bs)
  case Nil
  have "length (hex bs) = 0" using Nil.prems(1) by (metis hex_Nil list.size(3))
  then show ?case by (simp add: length_hex)
next
  case (Cons a as)
  have "length (hex bs) = length (hex (a # as))" using Cons.prems(1) by simp
  then have "length bs = Suc (length as)" by (simp only: length_hex) simp
  then obtain b bs' where bs: "bs = b # bs'" by (cases bs) auto
  have eqs: "hex_digit (a div 16) = hex_digit (b div 16)"
            "hex_digit (a mod 16) = hex_digit (b mod 16)" "hex as = hex bs'"
    using Cons.prems(1) bs by simp_all
  have "a = b" using eqs(1,2) Cons.prems(2,3) bs by (intro byte_eq) simp_all
  moreover have "as = bs'" using Cons.IH[OF eqs(3)] Cons.prems(2,3) bs by simp
  ultimately show ?case using bs by simp
qed

lemma length_bytes_of_nat: "length (bytes_of_nat n v) = n"
  by (simp add: bytes_of_nat_def)

lemma bytes_of_nat_bound: "b \<in> set (bytes_of_nat n v) \<Longrightarrow> b < 256"
  by (auto simp: bytes_of_nat_def)

lemma length_sha256: "length (sha256 msg) = 32"
  by (simp add: sha256_def state_bytes_def word_bytes_def length_bytes_of_nat split: prod.splits)

lemma sha256_bound: "b \<in> set (sha256 msg) \<Longrightarrow> b < 256"
  by (auto simp: sha256_def state_bytes_def word_bytes_def split: prod.splits
           dest: bytes_of_nat_bound)

lemma length_hmac: "length (hmac_sha256 key msg) = 32"
  by (simp add: hmac_sha256_def Let_def length_sha256)

lemma hmac_bound: "b \<in> set (hmac_sha256 key msg) \<Longrightarrow> b < 256"
  by (auto simp: hmac_sha256_def Let_def dest: sha256_bound)

lemma sig_hex_not_Nil: "sig_hex state secret \<noteq> []"
  using length_hex[of "hmac_sha256 (utf8_encode secret) (utf8_encode state)"]
  by (auto simp: sig_hex_def length_hmac)

lemma dot_notin_sig_hex: "CHR ''.'' \<notin> set (sig_hex state secret)"
  by (simp add: sig_hex_def dot_notin_hex)

lemma utf8_encode_Nil_iff: "utf8_encode s = [] \<longleftrightarrow> s = []"
  by (cases s) (simp_all add: utf8_encode_def Let_def)

lemma signState_eq:
  "signState state secret =
     (if secret = [] then Inl DataError else Inr (state @ ''.'' @ sig_hex state secret))"
  by (simp add: signState_def utf8_encode_Nil_iff sig_hex_def Let_def)

lemma sig_hex_eq_iff:
  "sig_hex state a = sig_hex state b \<longleftrightarrow>
   hmac_sha256 (utf8_encode a) (utf8_encode state) = hmac_sha256 (utf8_encode b) (utf8_encode state)"
proof
  assume "sig_hex state a = sig_hex state b"
  then show "hmac_sha256 (utf8_encode a) (utf8_encode state)
             = hmac_sha256 (utf8_encode b) (utf8_encode state)"
    unfolding sig_hex_def by (rule hex_inj) (auto dest: hmac_bound)
next
  assume "hmac_sha256 (utf8_encode a) (utf8_encode state)
          = hmac_sha256 (utf8_encode b) (utf8_encode state)"
  then show "sig_hex state a = sig_hex state b" by (simp add: sig_hex_def)
qed

lemma verifyState_parts:
  assumes "split_char CHR ''.'' signedState = state # signature # others"
    and "state \<noteq> []" and "secret \<noteq> []"
  shows "verifyState signedState secret now =
           Inr (if signature = sig_hex state secret \<and> \<not> expired state now then Some state else None)"
proof -
  have nodot: "CHR ''.'' \<notin> set state"
    using split_char_parts[of state "CHR ''.''" signedState] assms(1) by simp
  have exp: "split_char CHR ''.'' (state @ ''.'' @ sig_hex state secret) = [state, sig_hex state secret]"
    using split_char_append[OF nodot, of "sig_hex state secret"]
          split_char_no_sep[OF dot_notin_sig_hex, of state secret] by simp
  obtain p ps where ps: "split_char CHR ''-'' state = p # ps"
    by (cases "split_char CHR ''-'' state") simp_all
  have p: "p = takeWhile (\<lambda>c. c \<noteq> CHR ''-'') state"
    using split_char_first[OF ps] .
  show ?thesis
  proof (cases "signature = []")
    case True
    then show ?thesis using assms sig_hex_not_Nil[of state secret]
      by (simp add: verifyState_def)
  next
    case False
    then show ?thesis
      using assms exp ps p
      by (simp add: verifyState_def signState_eq expired_def split: option.splits)
  qed
qed

lemma sign_then_verify_plain:
  assumes "state \<noteq> []" "CHR ''.'' \<notin> set state" "secretA \<noteq> []" "secretB \<noteq> []"
  shows "sign_then_verify state secretA secretB now =
           Inr (if sig_hex state secretA = sig_hex state secretB \<and> \<not> expired state now
                then Some state else None)"
proof -
  have sp: "split_char CHR ''.'' (state @ ''.'' @ sig_hex state secretA)
            = state # sig_hex state secretA # []"
    using split_char_append[OF assms(2), of "sig_hex state secretA"]
          split_char_no_sep[OF dot_notin_sig_hex, of state secretA] by simp
  show ?thesis
    using verifyState_parts[OF sp assms(1) assms(4), of now] assms(3)
    by (simp add: sign_then_verify_def signState_eq)
qed

lemma parseInt_1000: "parseInt ''1000'' = Some 1000"
  by code_simp

lemma parseInt_abc: "parseInt ''abc'' = None"
  by code_simp

lemma parseInt_2000: "parseInt ''2000'' = Some 2000"
  by code_simp

lemma expired_iff:
  "parseInt (takeWhile (\<lambda>c. c \<noteq> CHR ''-'') state) = Some t \<Longrightarrow>
   expired state now = (now - t > 600000)"
  by (simp add: expired_def)

lemma not_expired_NaN:
  "parseInt (takeWhile (\<lambda>c. c \<noteq> CHR ''-'') state) = None \<Longrightarrow> \<not> expired state now"
  by (simp add: expired_def)

text \<open>
  C3 (as amended). For a secret that is not empty and a state string that is not empty,
  holds no \<open>.\<close> and whose text before the first \<open>-\<close> parses to the timestamp \<open>t\<close>:
  verifying the signed state with the same secret returns the state at the time \<open>t\<close>,
  returns \<open>null\<close> eleven minutes later, and in general returns the state exactly while
  \<open>now - t\<close> is at most 600000; verifying it with a secret under which the keyed hash
  of the state is another one returns \<open>null\<close>.
\<close>

theorem sign_verify_window:
  assumes "secret \<noteq> []" and "state \<noteq> []" and "CHR ''.'' \<notin> set state"
    and "parseInt (takeWhile (\<lambda>c. c \<noteq> CHR ''-'') state) = Some t"
  shows "sign_then_verify state secret secret t = Inr (Some state)
       \<and> sign_then_verify state secret secret (t + 11 * 60 * 1000) = Inr None
       \<and> sign_then_verify state secret secret now
           = Inr (if now - t > 10 * 60 * 1000 then None else Some state)
       \<and> (secretB \<noteq> [] \<and>
            hmac_sha256 (utf8_encode secretB) (utf8_encode state)
              \<noteq> hmac_sha256 (utf8_encode secret) (utf8_encode state)
          \<longrightarrow> sign_then_verify state secret secretB now = Inr None)"
  using assms
  by (simp add: sign_then_verify_plain expired_iff sig_hex_eq_iff)

text \<open>
  C3, at the state \<open>1000-a\<close> and the secret \<open>k\<close>: at the time 1000, eleven minutes
  later, and at the last time of the window.
\<close>

theorem sign_verify_window_witness:
  "sign_then_verify ''1000-a'' ''k'' ''k'' 1000 = Inr (Some ''1000-a'')
   \<and> sign_then_verify ''1000-a'' ''k'' ''k'' 661000 = Inr None
   \<and> sign_then_verify ''1000-a'' ''k'' ''k'' 601000 = Inr (Some ''1000-a'')"
  using sign_verify_window [of "''k''" "''1000-a''" 1000 601000 "[]"] parseInt_1000
  by simp

lemma key_block_trailing_zero:
  "hmac_key_block (utf8_encode [CHR ''k'', CHR 0x00]) = hmac_key_block (utf8_encode ''k'')"
  by (simp add: hmac_key_block_def utf8_encode_def numeral_eq_Suc)

lemma sig_hex_trailing_zero:
  "sig_hex state [CHR ''k'', CHR 0x00] = sig_hex state ''k''"
  by (simp add: sig_hex_def hmac_sha256_def key_block_trailing_zero)

text \<open>
  C3 as stated fails twice. The state \<open>1000-a.b\<close> holds a \<open>.\<close> and does not come back
  at its own creation time. The secrets \<open>k\<close> and \<open>k\<close> followed by the character of code 0
  are distinct, and HMAC fills both to the same key block, so the state signed with one is
  accepted with the other.
\<close>

theorem sign_verify_counterexample:
  "sign_then_verify ''1000-a.b'' ''k'' ''k'' 1000 = Inr None
   \<and> ''k'' \<noteq> [CHR ''k'', CHR 0x00]
   \<and> sign_then_verify ''1000-a'' ''k'' [CHR ''k'', CHR 0x00] 1000 = Inr (Some ''1000-a'')"
proof -
  have sp: "split_char CHR ''.'' (''1000-a.b'' @ ''.'' @ sig_hex ''1000-a.b'' ''k'')
            = ''1000-a'' # ''b'' # [sig_hex ''1000-a.b'' ''k'']"
    using split_char_no_sep[OF dot_notin_sig_hex, of "''1000-a.b''" "''k''"] by simp
  have len: "length (sig_hex ''1000-a'' ''k'') = 64"
    by (simp add: sig_hex_def length_hex length_hmac)
  have ne: "''b'' \<noteq> sig_hex ''1000-a'' ''k''"
  proof
    assume "''b'' = sig_hex ''1000-a'' ''k''"
    then have "length ''b'' = length (sig_hex ''1000-a'' ''k'')" by (rule arg_cong)
    then show False using len by simp
  qed
  have 1: "sign_then_verify ''1000-a.b'' ''k'' ''k'' 1000 = Inr None"
    using verifyState_parts[OF sp, of "''k''" 1000] ne
    by (simp add: sign_then_verify_def signState_eq)
  have e: "\<not> expired ''1000-a'' 1000"
    using expired_iff[of "''1000-a''" 1000 1000] parseInt_1000 by simp
  have 2: "sign_then_verify ''1000-a'' ''k'' [CHR ''k'', CHR 0x00] 1000 = Inr (Some ''1000-a'')"
    using sign_then_verify_plain[of "''1000-a''" "''k''" "[CHR ''k'', CHR 0x00]" 1000] e
    by (simp add: sig_hex_trailing_zero)
  show ?thesis using 1 2 by simp
qed

text \<open>
  C9 (as amended). Let the first two parts of a signed state be a state string that is
  not empty and its signature under the secret. When \<open>parseInt\<close> of the text before the
  first \<open>-\<close> of the state is \<open>NaN\<close>, \<open>verifyState\<close> returns the state at every time;
  when it is a timestamp that is not before the time of verification, \<open>verifyState\<close>
  returns the state too.
\<close>

theorem timestamp_unparseable_or_future:
  assumes "split_char CHR ''.'' signedState = state # signature # others"
    and "state \<noteq> []"
    and "signState state secret = Inr (state @ ''.'' @ signature)"
  shows "(parseInt (takeWhile (\<lambda>c. c \<noteq> CHR ''-'') state) = None \<longrightarrow>
            verifyState signedState secret now = Inr (Some state))
       \<and> (\<forall>t. parseInt (takeWhile (\<lambda>c. c \<noteq> CHR ''-'') state) = Some t \<and> now \<le> t \<longrightarrow>
            verifyState signedState secret now = Inr (Some state))"
proof -
  have secret: "secret \<noteq> []" and sig: "signature = sig_hex state secret"
    using assms(3) by (auto simp: signState_eq split: if_splits)
  have v: "verifyState signedState secret now = Inr (if \<not> expired state now then Some state else None)"
    using verifyState_parts[OF assms(1,2) secret, of now] sig by simp
  show ?thesis
    by (auto simp: v expired_def)
qed

text \<open>
  C9, at the state \<open>abc-x\<close>, whose timestamp does not parse, and at the state
  \<open>2000-x\<close> verified at the time 1000.
\<close>

theorem timestamp_unparseable_or_future_witness:
  "verifyState (''abc-x.'' @ sig_hex ''abc-x'' ''k'') ''k'' 99999999999999 = Inr (Some ''abc-x'')
   \<and> verifyState (''2000-x.'' @ sig_hex ''2000-x'' ''k'') ''k'' 1000 = Inr (Some ''2000-x'')"
proof -
  have s1: "split_char CHR ''.'' (''abc-x.'' @ sig_hex ''abc-x'' ''k'')
            = ''abc-x'' # sig_hex ''abc-x'' ''k'' # []"
    using split_char_no_sep[OF dot_notin_sig_hex, of "''abc-x''" "''k''"] by simp
  have s2: "split_char CHR ''.'' (''2000-x.'' @ sig_hex ''2000-x'' ''k'')
            = ''2000-x'' # sig_hex ''2000-x'' ''k'' # []"
    using split_char_no_sep[OF dot_notin_sig_hex, of "''2000-x''" "''k''"] by simp
  have g1: "signState ''abc-x'' ''k'' = Inr (''abc-x'' @ ''.'' @ sig_hex ''abc-x'' ''k'')"
    by (simp add: signState_eq)
  have g2: "signState ''2000-x'' ''k'' = Inr (''2000-x'' @ ''.'' @ sig_hex ''2000-x'' ''k'')"
    by (simp add: signState_eq)
  show ?thesis
    using timestamp_unparseable_or_future [OF s1 _ g1, of 99999999999999]
          timestamp_unparseable_or_future [OF s2 _ g2, of 1000]
          parseInt_abc parseInt_2000
    by simp
qed

text \<open>
  C9 as stated fails at the empty state. The signed state made of \<open>.\<close> and the signature
  of the empty string under \<open>k\<close> carries the matching signature, and \<open>parseInt\<close> of the
  empty string is \<open>NaN\<close>; \<open>verifyState\<close> returns \<open>null\<close> at every time, by its test
  \<open>!state\<close>.
\<close>

theorem empty_state_counterexample:
  "split_char CHR ''.'' (''.'' @ sig_hex [] ''k'') = [[], sig_hex [] ''k'']
   \<and> signState [] ''k'' = Inr ([] @ ''.'' @ sig_hex [] ''k'')
   \<and> parseInt (takeWhile (\<lambda>c. c \<noteq> CHR ''-'') []) = None
   \<and> (\<forall>now. verifyState (''.'' @ sig_hex [] ''k'') ''k'' now = Inr None)"
proof -
  have sp: "split_char CHR ''.'' (''.'' @ sig_hex [] ''k'') = [[], sig_hex [] ''k'']"
    using split_char_no_sep[OF dot_notin_sig_hex, of "[]" "''k''"] by simp
  have sg: "signState [] ''k'' = Inr ([] @ ''.'' @ sig_hex [] ''k'')"
    by (simp add: signState_eq)
  have nan: "parseInt (takeWhile (\<lambda>c. c \<noteq> CHR ''-'') []) = None"
    by (simp add: parseInt_def)
  have "verifyState (''.'' @ sig_hex [] ''k'') ''k'' now = Inr None" for now
    using sp by (simp add: verifyState_def)
  then show ?thesis using sp sg nan by blast
qed

text \<open>
  C10. For a state string that holds a \<open>.\<close>, signing and then verifying with the same
  secret never returns the state: the result is an error (the empty secret), \<open>null\<close>, or
  the part of the state before its first \<open>.\<close>.
\<close>

theorem dotted_state_never_round_trips:
  assumes "CHR ''.'' \<in> set state"
  shows "sign_then_verify state secret secret now \<noteq> Inr (Some state)
       \<and> sign_then_verify state secret secret now
           \<in> {Inl DataError, Inr None, Inr (Some (takeWhile (\<lambda>c. c \<noteq> CHR ''.'') state))}"
proof (cases "secret = []")
  case True
  then show ?thesis by (simp add: sign_then_verify_def signState_eq)
next
  case False
  let ?p = "takeWhile (\<lambda>c. c \<noteq> CHR ''.'') state"
  let ?signed = "state @ ''.'' @ sig_hex state secret"
  have "dropWhile (\<lambda>c. c \<noteq> CHR ''.'') state \<noteq> []"
    using assms by (simp add: dropWhile_eq_Nil_conv)
  then obtain d rest where d: "dropWhile (\<lambda>c. c \<noteq> CHR ''.'') state = d # rest"
    by (cases "dropWhile (\<lambda>c. c \<noteq> CHR ''.'') state") auto
  have "d = CHR ''.''"
    using hd_dropWhile[of "\<lambda>c. c \<noteq> CHR ''.''" state] d by simp
  then have st: "state = ?p @ CHR ''.'' # rest"
    using takeWhile_dropWhile_id[of "\<lambda>c. c \<noteq> CHR ''.''" state] d by simp
  have nodot: "CHR ''.'' \<notin> set ?p" by (auto dest: set_takeWhileD)
  have pne: "?p \<noteq> state" using assms nodot by auto
  obtain q qs where q: "split_char CHR ''.'' (rest @ ''.'' @ sig_hex state secret) = q # qs"
    by (cases "split_char CHR ''.'' (rest @ ''.'' @ sig_hex state secret)") simp_all
  have eq: "?signed = ?p @ CHR ''.'' # (rest @ ''.'' @ sig_hex state secret)"
    using st by (metis append_Cons append_assoc)
  have sp: "split_char CHR ''.'' ?signed = ?p # q # qs"
    by (subst eq) (simp only: split_char_append[OF nodot] q)
  have v: "verifyState ?signed secret now \<in> {Inr None, Inr (Some ?p)}"
  proof (cases "?p = []")
    case True
    then show ?thesis using sp by (simp add: verifyState_def)
  next
    case False
    show ?thesis using verifyState_parts[OF sp False \<open>secret \<noteq> []\<close>, of now] by simp
  qed
  have "sign_then_verify state secret secret now = verifyState ?signed secret now"
    using False by (simp add: sign_then_verify_def signState_eq)
  then show ?thesis using v pne by auto
qed

text \<open>
  C10, at the state \<open>1000-a.b\<close>.
\<close>

theorem dotted_state_never_round_trips_witness:
  "sign_then_verify ''1000-a.b'' ''k'' ''k'' 1000 \<noteq> Inr (Some ''1000-a.b'')
   \<and> sign_then_verify ''1000-a.b'' ''k'' ''k'' 1000 \<in> {Inl DataError, Inr None, Inr (Some ''1000-a'')}"
  using dotted_state_never_round_trips [of "''1000-a.b''" "''k''" 1000]
  by simp

section \<open>Properties of the shareable URL\<close>

lemma path_stable_facts:
  assumes "path_stable c"
  shows "c \<noteq> CHR ''?''" "c \<noteq> CHR ''#''" "\<not> js_whitespace c"
  using assms by (auto simp: path_stable_def is_alnum_def js_whitespace_def Let_def)

lemma unreserved_facts:
  assumes "uri_unreserved c"
  shows "of_char c < (128::nat)" "c \<noteq> CHR ''%''" "c \<noteq> CHR ''+''" "c \<noteq> CHR ''&''"
    "c \<noteq> CHR ''#''" "c \<noteq> CHR ''?''" "c = CHR 0x27 \<or> query_stable c"
  using assms by (auto simp: uri_unreserved_def is_alnum_def query_stable_def Let_def)

lemma upper_hex_digit_in: "upper_hex_digit n \<in> set ''0123456789ABCDEF''"
proof -
  have "n mod 16 < length ''0123456789ABCDEF''" by simp
  then show ?thesis unfolding upper_hex_digit_def by (rule nth_mem)
qed

lemma upper_hex_digit_unreserved: "uri_unreserved (upper_hex_digit n)"
  using upper_hex_digit_in[of n] by (auto simp: uri_unreserved_def is_alnum_def)

lemma upper_hex_digit_not_quote: "upper_hex_digit n \<noteq> CHR 0x27"
  using upper_hex_digit_in[of n] by auto

lemma from_hex_upper: "k < 16 \<Longrightarrow> from_hex (upper_hex_digit k) = Some k"
proof -
  have "\<forall>k \<in> set [0..<16]. from_hex (upper_hex_digit k) = Some k" by code_simp
  then show "k < 16 \<Longrightarrow> from_hex (upper_hex_digit k) = Some k" by simp
qed

lemma js_trim_id:
  assumes "\<forall>c \<in> set s. \<not> js_whitespace c"
  shows "js_trim s = s"
proof -
  have keep: "dropWhile js_whitespace xs = xs" if "\<forall>c \<in> set xs. \<not> js_whitespace c" for xs
    using that by (cases xs) simp_all
  have 1: "dropWhile js_whitespace s = s"
    using assms by (rule keep)
  have 2: "dropWhile js_whitespace (rev s) = rev s"
    using assms by (intro keep) simp
  show ?thesis by (simp add: js_trim_def 1 2)
qed

lemma js_trim_stable: "list_all path_stable s \<Longrightarrow> js_trim s = s"
  by (rule js_trim_id) (auto simp: list_all_iff path_stable_facts)

lemma encodeURIComponent_chars:
  "d \<in> set (encodeURIComponent s) \<Longrightarrow> uri_unreserved d \<or> d = CHR ''%''"
  by (auto simp: encodeURIComponent_def percent_byte_def upper_hex_digit_unreserved
           split: if_splits)

lemma query_text_Nil [simp]: "query_text [] = []"
  by (simp add: query_text_def)

lemma query_text_Cons: "query_text (c # s) = query_char c @ query_text s"
  by (simp add: query_text_def)

lemma query_text_append: "query_text (s @ t) = query_text s @ query_text t"
  by (simp add: query_text_def)

lemma query_text_chars:
  assumes "d \<in> set (query_text (encodeURIComponent s))"
  shows "d \<noteq> CHR ''+''" "d \<noteq> CHR ''&''"
proof -
  obtain c where c: "c \<in> set (encodeURIComponent s)" "d \<in> set (query_char c)"
    using assms by (auto simp: query_text_def)
  have "uri_unreserved c \<or> c = CHR ''%''" using c(1) by (rule encodeURIComponent_chars)
  then show "d \<noteq> CHR ''+''" "d \<noteq> CHR ''&''"
    using c(2) by (auto simp: query_char_def dest: unreserved_facts split: if_splits)
qed

lemma percent_decode_plain:
  "c \<noteq> CHR ''%'' \<Longrightarrow> percent_decode (c # rest) = utf8_encode [c] @ percent_decode rest"
  by simp

lemma percent_decode_byte:
  assumes "b < 256"
  shows "percent_decode (percent_byte b @ rest) = b # percent_decode rest"
proof -
  have "b div 16 < 16" using assms by simp
  then have "from_hex (upper_hex_digit (b div 16)) = Some (b div 16)"
    by (rule from_hex_upper)
  moreover have "from_hex (upper_hex_digit (b mod 16)) = Some (b mod 16)"
    by (rule from_hex_upper) simp
  ultimately show ?thesis by (simp add: percent_byte_def)
qed

lemma query_text_percent_byte: "query_text (percent_byte b) = percent_byte b"
  by (simp add: query_text_def percent_byte_def query_char_def upper_hex_digit_not_quote)

lemma utf8_encode_Cons: "utf8_encode (c # s) = utf8_encode [c] @ utf8_encode s"
  by (simp add: utf8_encode_def)

lemma utf8_encode_bytes: "b \<in> set (utf8_encode s) \<Longrightarrow> b < 256"
proof -
  assume "b \<in> set (utf8_encode s)"
  then obtain c where b: "b = of_char c \<or> b = 192 + of_char c div 64 \<or> b = 128 + of_char c mod 64"
    by (auto simp: utf8_encode_def Let_def split: if_splits)
  have "of_char c div 64 < (4::nat)"
    using nat_of_char_less_256[of c] by (simp add: div_less_iff_less_mult)
  then have "192 + of_char c div 64 < (256::nat)" by linarith
  moreover have "128 + of_char c mod 64 < (256::nat)" by simp
  moreover have "of_char c < (256::nat)" by simp
  ultimately show ?thesis using b by blast
qed

lemma percent_decode_bytes:
  "\<forall>b \<in> set bs. b < 256 \<Longrightarrow>
   percent_decode (concat (map percent_byte bs) @ rest) = bs @ percent_decode rest"
  by (induction bs) (simp_all add: percent_decode_byte)

lemma percent_decode_unit:
  "percent_decode
     (query_text (if uri_unreserved c then [c] else concat (map percent_byte (utf8_encode [c]))) @ rest)
   = utf8_encode [c] @ percent_decode rest"
proof (cases "uri_unreserved c")
  case True
  show ?thesis
  proof (cases "c = CHR 0x27")
    case True
    have "from_hex CHR ''2'' = Some 2" "from_hex CHR ''7'' = Some 7" by code_simp+
    then show ?thesis using True
      by (simp add: query_text_def query_char_def uri_unreserved_def utf8_encode_def)
  next
    case False
    then show ?thesis using True unreserved_facts(2)[OF True]
      by (simp add: query_text_def query_char_def)
  qed
next
  case False
  have "query_text (concat (map percent_byte bs)) = concat (map percent_byte bs)" for bs
    by (induction bs) (simp_all add: query_text_append query_text_percent_byte)
  moreover have "\<forall>b \<in> set (utf8_encode [c]). b < 256"
    by (blast dest: utf8_encode_bytes)
  ultimately show ?thesis using False
    by (simp add: percent_decode_bytes)
qed

lemma percent_decode_encoded:
  "percent_decode (query_text (encodeURIComponent s)) = utf8_encode s"
proof (induction s)
  case Nil
  show ?case by (simp add: encodeURIComponent_def utf8_encode_def)
next
  case (Cons c s)
  have "encodeURIComponent (c # s)
        = (if uri_unreserved c then [c] else concat (map percent_byte (utf8_encode [c])))
          @ encodeURIComponent s"
    by (simp add: encodeURIComponent_def)
  then show ?case
    using percent_decode_unit[of c "query_text (encodeURIComponent s)"] Cons.IH
    by (simp only: query_text_append utf8_encode_Cons[of c s])
qed

lemma utf8_decode_low:
  "b < 128 \<Longrightarrow> utf8_decode (b # bs) = cons_char (char_of b) (utf8_decode bs)"
  by simp

lemma utf8_decode_two:
  "b1 = 194 \<or> b1 = 195 \<Longrightarrow> 128 \<le> b2 \<Longrightarrow> b2 < 192 \<Longrightarrow>
   utf8_decode (b1 # b2 # bs)
   = cons_char (char_of ((b1 - 192) * 64 + (b2 - 128))) (utf8_decode bs)"
  by auto

lemma utf8_decode_high:
  assumes "n < 256" and "128 \<le> n"
  shows "utf8_decode ((192 + n div 64) # (128 + n mod 64) # bs)
         = cons_char (char_of n) (utf8_decode bs)"
proof -
  have "n div 64 < 4" using assms(1) by (simp add: div_less_iff_less_mult)
  moreover have "2 \<le> n div 64" using assms(2) by (simp add: less_eq_div_iff_mult_less_eq)
  ultimately have d: "192 + n div 64 = 194 \<or> 192 + n div 64 = 195" by linarith
  have lo: "128 \<le> 128 + n mod 64" by simp
  have hi: "128 + n mod 64 < 192" by simp
  have v: "(192 + n div 64 - 192) * 64 + (128 + n mod 64 - 128) = n" by simp
  show ?thesis
    using utf8_decode_two[OF d lo hi, of bs] by (simp only: v)
qed

lemma utf8_decode_unit:
  "utf8_decode (utf8_encode [c] @ bs) = cons_char c (utf8_decode bs)"
proof (cases "of_char c < (128::nat)")
  case True
  then have "utf8_encode [c] = [of_char c]" by (simp add: utf8_encode_def Let_def)
  then show ?thesis using True utf8_decode_low[of "of_char c" bs] by simp
next
  case False
  then have "utf8_encode [c] = [192 + of_char c div 64, 128 + of_char c mod 64]"
    by (simp add: utf8_encode_def Let_def)
  then show ?thesis using False utf8_decode_high[of "of_char c" bs] by simp
qed

lemma utf8_decode_encode: "utf8_decode (utf8_encode s) = Inr s"
proof (induction s)
  case Nil
  show ?case by (simp add: utf8_encode_def)
next
  case (Cons c s)
  have "utf8_decode (utf8_encode (c # s)) = cons_char c (utf8_decode (utf8_encode s))"
    by (subst utf8_encode_Cons) (rule utf8_decode_unit)
  then show ?case by (simp add: Cons.IH cons_char_def)
qed

lemma form_decode_encoded: "form_decode (query_text (encodeURIComponent s)) = Inr s"
proof -
  have plus: "map (\<lambda>c. if c = CHR ''+'' then CHR '' '' else c) (query_text (encodeURIComponent s))
        = query_text (encodeURIComponent s)"
  proof (rule map_idI)
    fix x assume "x \<in> set (query_text (encodeURIComponent s))"
    then have "x \<noteq> CHR ''+''" by (rule query_text_chars(1))
    then show "(if x = CHR ''+'' then CHR '' '' else x) = x" by simp
  qed
  show ?thesis
    unfolding form_decode_def plus percent_decode_encoded by (rule utf8_decode_encode)
qed

lemma split_pair_not_Nil [simp]: "split_pair a b s \<noteq> []"
  by (induction a b s rule: split_pair.induct) (auto split: list.splits)

lemma split_pair_none: "no_dotdot s \<Longrightarrow> split_pair CHR ''.'' CHR ''.'' s = [s]"
  by (induction s rule: no_dotdot.induct) auto

lemma split_pair_append:
  "no_dotdot (x @ ''.'') \<Longrightarrow>
   split_pair CHR ''.'' CHR ''.'' (x @ ''..'' @ h) = x # split_pair CHR ''.'' CHR ''.'' h"
proof (induction x rule: no_dotdot.induct)
  case 1
  show ?case by simp
next
  case (2 c)
  then show ?case by auto
next
  case (3 c d cs)
  then show ?case by auto
qed

lemma join_split_char: "join_with sep (split_char sep s) = s"
proof (induction s)
  case Nil
  show ?case by (simp add: join_with_def)
next
  case (Cons x xs)
  obtain p ps where r: "split_char sep xs = p # ps"
    by (cases "split_char sep xs") simp_all
  then have "p @ concat (map (\<lambda>q. sep # q) ps) = xs"
    using Cons.IH by (simp add: join_with_def)
  then show ?case using r by (simp add: join_with_def)
qed

lemma form_decode_filter: "form_decode ''filter'' = Inr ''filter''"
  by code_simp

lemma URLSearchParams_empty: "URLSearchParams [] = Inr []"
  by (simp add: URLSearchParams_def)

lemma URLSearchParams_question:
  "URLSearchParams (CHR ''?'' # q)
   = decode_pairs (filter (\<lambda>piece. piece \<noteq> []) (split_char CHR ''&'' q))"
  by (simp add: URLSearchParams_def)

lemma URLSearchParams_filter:
  "URLSearchParams (''?filter='' @ query_text (encodeURIComponent s)) = Inr [(''filter'', s)]"
proof -
  let ?Q = "query_text (encodeURIComponent s)"
  have amp: "CHR ''&'' \<notin> set (''filter='' @ ?Q)"
    using query_text_chars(2)[of "CHR ''&''" s] by auto
  have sp: "split_char CHR ''&'' (''filter='' @ ?Q) = [''filter='' @ ?Q]"
    using amp by (rule split_char_no_sep)
  have dp: "decode_pairs [''filter='' @ ?Q] = Inr [(''filter'', s)]"
    by (simp add: form_decode_filter form_decode_encoded)
  have "''?filter='' @ ?Q = CHR ''?'' # (''filter='' @ ?Q)" by simp
  then have "URLSearchParams (''?filter='' @ ?Q)
             = decode_pairs (filter (\<lambda>piece. piece \<noteq> []) [''filter='' @ ?Q])"
    by (simp only: URLSearchParams_question sp)
  also have "\<dots> = decode_pairs [''filter='' @ ?Q]" by simp
  finally show ?thesis using dp by simp
qed

lemma takeWhile_all: "x \<notin> set s \<Longrightarrow> takeWhile (\<lambda>c. c \<noteq> x) s = s"
  by (induction s) auto

lemma dropWhile_all: "x \<notin> set s \<Longrightarrow> dropWhile (\<lambda>c. c \<noteq> x) s = []"
  by (induction s) auto

lemma takeWhile_stop: "x \<notin> set p \<Longrightarrow> takeWhile (\<lambda>c. c \<noteq> x) (p @ x # q) = p"
  by (induction p) auto

lemma dropWhile_stop: "x \<notin> set p \<Longrightarrow> dropWhile (\<lambda>c. c \<noteq> x) (p @ x # q) = x # q"
  by (induction p) auto

lemma location_after_path:
  assumes "list_all path_stable p" "take 1 p = ''/''" "take 2 p \<noteq> ''//''"
    "\<not> list_ex dot_segment (split_char CHR ''/'' p)"
  shows "location_after p = Inr (p, [])"
proof -
  have h: "CHR ''#'' \<notin> set p" and q: "CHR ''?'' \<notin> set p"
    using assms(1) by (auto simp: list_all_iff dest: path_stable_facts)
  show ?thesis
    using assms
    by (simp add: location_after_def takeWhile_all[OF h] takeWhile_all[OF q] dropWhile_all[OF q])
qed

lemma query_stable_not_hash: "query_stable c \<Longrightarrow> c \<noteq> CHR ''#''"
  by (auto simp: query_stable_def Let_def)

lemma location_after_query:
  assumes "list_all path_stable p" "take 1 p = ''/''" "take 2 p \<noteq> ''//''"
    "\<not> list_ex dot_segment (split_char CHR ''/'' p)"
    "list_all query_stable q" "q \<noteq> []"
  shows "location_after (p @ ''?'' @ q) = Inr (p, ''?'' @ query_text q)"
proof -
  have hp: "CHR ''#'' \<notin> set p" and qm: "CHR ''?'' \<notin> set p"
    using assms(1) by (auto simp: list_all_iff dest: path_stable_facts)
  have hq: "CHR ''#'' \<notin> set q"
    using assms(5) by (auto simp: list_all_iff dest: query_stable_not_hash)
  have h: "CHR ''#'' \<notin> set (p @ ''?'' @ q)"
    using hp hq by simp
  have bf: "takeWhile (\<lambda>c. c \<noteq> CHR ''#'') (p @ ''?'' @ q) = p @ ''?'' @ q"
    using h by (rule takeWhile_all)
  have t: "takeWhile (\<lambda>c. c \<noteq> CHR ''?'') (p @ ''?'' @ q) = p"
    using qm by (simp add: takeWhile_stop)
  have d: "drop 1 (dropWhile (\<lambda>c. c \<noteq> CHR ''?'') (p @ ''?'' @ q)) = q"
    using qm by (simp add: dropWhile_stop)
  have "location_after (p @ ''?'' @ q)
        = (if take 1 p = ''/'' \<and> take 2 p \<noteq> ''//''
            \<and> list_all path_stable p
            \<and> \<not> list_ex dot_segment (split_char CHR ''/'' p)
            \<and> list_all query_stable q
         then Inr (p, if q = [] then [] else ''?'' @ concat (map query_char q))
         else Inl NotModelled)"
    by (simp only: location_after_def Let_def bf t d)
  also have "\<dots> = Inr (p, ''?'' @ query_text q)"
    by (simp only: assms query_text_def simp_thms if_True if_False not_False_eq_True)
  finally show ?thesis .
qed

lemma encoded_query_stable: "list_all query_stable (''filter='' @ encodeURIComponent s)"
proof -
  have "query_stable d" if "d \<in> set (encodeURIComponent s)" for d
  proof -
    have "uri_unreserved d \<or> d = CHR ''%''" using that by (rule encodeURIComponent_chars)
    then show ?thesis
      by (auto simp: uri_unreserved_def is_alnum_def query_stable_def Let_def)
  qed
  moreover have "list_all query_stable ''filter=''"
    by (simp add: query_stable_def)
  ultimately show ?thesis by (simp add: list_all_iff)
qed

lemma path_form_prefix:
  assumes "rest \<noteq> []" "last rest \<noteq> CHR ''/''"
  shows "path_form (''/gh-dir-diff/'' @ rest) params =
     (case split_pair CHR ''.'' CHR ''.'' rest of
              [part0, part1] \<Rightarrow>
                (case split_char CHR ''/'' part0 of
                   segment0 # segment1 # segments \<Rightarrow>
                     Some \<lparr>repo = segment0 @ ''/'' @ segment1,
                           base = join_with CHR ''/'' segments,
                           head = part1,
                           path_filter = or_else (params_get params ''filter'') []\<rparr>
                 | _ \<Rightarrow> None)
            | _ \<Rightarrow> None)"
proof -
  have t: "take 13 (''/gh-dir-diff/'' @ rest) = ''/gh-dir-diff/''" by simp
  have d: "drop 13 (''/gh-dir-diff/'' @ rest) = rest" by simp
  have l: "length (''/gh-dir-diff/'' @ rest) > 13" using assms(1) by (cases rest) simp_all
  show ?thesis
    unfolding path_form_def t d Let_def using l assms by (simp only: if_True if_False simp_thms)
qed

lemma path_form_shared:
  assumes sp: "split_pair CHR ''.'' CHR ''.'' (owner @ ''/'' @ name @ ''/'' @ b @ ''..'' @ h)
               = [owner @ ''/'' @ name @ ''/'' @ b, h]"
    and h: "h \<noteq> []" "last h \<noteq> CHR ''/''"
    and o: "CHR ''/'' \<notin> set owner" and n: "CHR ''/'' \<notin> set name"
  shows "path_form (''/gh-dir-diff/'' @ owner @ ''/'' @ name @ ''/'' @ b @ ''..'' @ h) params
         = Some \<lparr>repo = owner @ ''/'' @ name, base = b, head = h,
                 path_filter = or_else (params_get params ''filter'') []\<rparr>"
proof -
  define x where "x = owner @ ''/'' @ name @ ''/'' @ b"
  define rest where "rest = owner @ ''/'' @ name @ ''/'' @ b @ ''..'' @ h"
  have ne: "rest \<noteq> []" by (simp add: rest_def)
  have la: "last rest \<noteq> CHR ''/''" using h by (simp add: rest_def)
  have sp': "split_pair CHR ''.'' CHR ''.'' rest = [x, h]"
    using sp by (simp only: rest_def x_def)
  have seg: "split_char CHR ''/'' x = owner # name # split_char CHR ''/'' b"
    using split_char_append[OF o, of "name @ ''/'' @ b"] split_char_append[OF n, of b]
    by (simp add: x_def)
  obtain s0 ss where b: "split_char CHR ''/'' b = s0 # ss"
    by (cases "split_char CHR ''/'' b") simp_all
  have j: "join_with CHR ''/'' (split_char CHR ''/'' b) = b"
    by (rule join_split_char)
  have "path_form (''/gh-dir-diff/'' @ rest) params
        = Some \<lparr>repo = owner @ ''/'' @ name, base = b, head = h,
                 path_filter = or_else (params_get params ''filter'') []\<rparr>"
    by (simp only: path_form_prefix[OF ne la] sp' seg list.case j)
  then show ?thesis by (simp only: rest_def)
qed

lemma shared_path_facts:
  assumes st: "list_all path_stable (r @ b @ h)"
    and ds: "\<not> list_ex dot_segment (split_char CHR ''/'' (r @ ''/'' @ b @ ''..'' @ h))"
  shows "list_all path_stable (''/gh-dir-diff/'' @ r @ ''/'' @ b @ ''..'' @ h)"
    and "take 1 (''/gh-dir-diff/'' @ r @ ''/'' @ b @ ''..'' @ h) = ''/''"
    and "take 2 (''/gh-dir-diff/'' @ r @ ''/'' @ b @ ''..'' @ h) \<noteq> ''//''"
    and "\<not> list_ex dot_segment (split_char CHR ''/'' (''/gh-dir-diff/'' @ r @ ''/'' @ b @ ''..'' @ h))"
proof -
  let ?rest = "r @ ''/'' @ b @ ''..'' @ h"
  have lit: "list_all path_stable ''/gh-dir-diff/''" "path_stable CHR ''/''" "path_stable CHR ''.''"
    by (simp_all add: path_stable_def is_alnum_def)
  show "list_all path_stable (''/gh-dir-diff/'' @ ?rest)"
    using st lit by (simp only: list_all_append list.pred_inject simp_thms)
  show "take 1 (''/gh-dir-diff/'' @ ?rest) = ''/''" by simp
  show "take 2 (''/gh-dir-diff/'' @ ?rest) \<noteq> ''//''" by simp
  have nos: "CHR ''/'' \<notin> set ''gh-dir-diff''" by simp
  have "split_char CHR ''/'' (''/gh-dir-diff/'' @ ?rest)
        = [] # ''gh-dir-diff'' # split_char CHR ''/'' ?rest"
    using split_char_append[of "CHR ''/''" "[]" "''gh-dir-diff/'' @ ?rest"]
          split_char_append[OF nos, of ?rest]
    by (simp del: split_char.simps)
  moreover have "\<not> dot_segment []" "\<not> dot_segment ''gh-dir-diff''"
    by (simp_all add: dot_segment_def)
  ultimately show "\<not> list_ex dot_segment (split_char CHR ''/'' (''/gh-dir-diff/'' @ ?rest))"
    using ds by (simp del: split_char.simps)
qed

text \<open>
  C8 (as amended). Let the repo of the form be an owner and a name joined by one \<open>/\<close>,
  neither of them holding a \<open>/\<close>; let base and head be non-empty and head not end in
  \<open>/\<close>; let repo, base and head consist of characters that the URL parser keeps in a
  path as they are written; let \<open>..\<close> occur neither in repo, \<open>/\<close>, base followed by a
  \<open>.\<close> nor in head; let no segment of the path be a dot segment; and let the filter have
  no white space at its ends. Then \<open>updateURL\<close> writes a URL, the browser gives it a
  pathname and a search, and \<open>loadFromURL\<close> reads from them the values of the form as they
  were: owner, repo and head, the base rejoined from all segments after the second, and
  the filter.
\<close>

theorem shared_url_round_trip:
  assumes r: "repo f = owner @ ''/'' @ name"
    and o: "CHR ''/'' \<notin> set owner" and n: "CHR ''/'' \<notin> set name"
    and b: "base f \<noteq> []"
    and h: "head f \<noteq> []" "last (head f) \<noteq> CHR ''/''"
    and st: "list_all path_stable (repo f @ base f @ head f)"
    and dd: "no_dotdot (repo f @ ''/'' @ base f @ ''.'')" "no_dotdot (head f)"
    and ds: "\<not> list_ex dot_segment
                 (split_char CHR ''/'' (repo f @ ''/'' @ base f @ ''..'' @ head f))"
    and ft: "js_trim (path_filter f) = path_filter f"
  shows "\<exists>url pathname search.
           updateURL f = Some url
           \<and> location_after url = Inr (pathname, search)
           \<and> loadFromURL pathname search = Inr (Some f)"
proof -
  define R B H F where "R = repo f" and "B = base f" and "H = head f" and "F = path_filter f"
  define P where "P = ''/gh-dir-diff/'' @ R @ ''/'' @ B @ ''..'' @ H"
  have f: "f = \<lparr>repo = R, base = B, head = H, path_filter = F\<rparr>"
    by (simp add: R_def B_def H_def F_def)
  have st': "list_all path_stable R" "list_all path_stable B" "list_all path_stable H"
    using st by (simp_all add: R_def B_def H_def)
  have tr: "js_trim R = R" "js_trim B = B" "js_trim H = H" "js_trim F = F"
    using st' ft by (simp_all add: js_trim_stable F_def)
  have ne: "R \<noteq> []" "B \<noteq> []" "H \<noteq> []"
    using r b h(1) by (simp_all add: R_def B_def H_def)
  have url: "updateURL f = Some (if F \<noteq> [] then P @ ''?filter='' @ encodeURIComponent F else P)"
    unfolding updateURL_def Let_def R_def[symmetric] B_def[symmetric] H_def[symmetric]
      F_def[symmetric] tr
    using ne by (simp only: P_def simp_thms if_True)
  have pf: "list_all path_stable P" "take 1 P = ''/''" "take 2 P \<noteq> ''//''"
    "\<not> list_ex dot_segment (split_char CHR ''/'' P)"
    unfolding P_def R_def B_def H_def
    by (rule shared_path_facts[OF st ds])+
  have Rr: "R = owner @ ''/'' @ name" using r by (simp add: R_def)
  have sp: "split_pair CHR ''.'' CHR ''.'' (owner @ ''/'' @ name @ ''/'' @ B @ ''..'' @ H)
            = [owner @ ''/'' @ name @ ''/'' @ B, H]"
  proof -
    have "no_dotdot ((owner @ ''/'' @ name @ ''/'' @ B) @ ''.'')"
      using dd(1) by (simp add: R_def[symmetric] B_def[symmetric] Rr)
    then have "split_pair CHR ''.'' CHR ''.'' ((owner @ ''/'' @ name @ ''/'' @ B) @ ''..'' @ H)
               = (owner @ ''/'' @ name @ ''/'' @ B) # split_pair CHR ''.'' CHR ''.'' H"
      by (rule split_pair_append)
    moreover have "split_pair CHR ''.'' CHR ''.'' H = [H]"
      using dd(2) by (simp only: H_def[symmetric] split_pair_none)
    ultimately show ?thesis by simp
  qed
  have form: "path_form P params
              = Some \<lparr>repo = R, base = B, head = H,
                      path_filter = or_else (params_get params ''filter'') []\<rparr>" for params
  proof -
    have "path_form (''/gh-dir-diff/'' @ owner @ ''/'' @ name @ ''/'' @ B @ ''..'' @ H) params
         = Some \<lparr>repo = owner @ ''/'' @ name, base = B, head = H,
                 path_filter = or_else (params_get params ''filter'') []\<rparr>"
      using sp ne(3) h(2) o n unfolding H_def[symmetric] by (rule path_form_shared)
    then show ?thesis by (simp add: P_def Rr)
  qed
  show ?thesis
  proof (cases "F = []")
    case True
    have 1: "updateURL f = Some P" using url True by simp
    have 2: "location_after P = Inr (P, [])" using pf by (rule location_after_path)
    have 3: "loadFromURL P [] = Inr (Some f)"
      by (simp add: loadFromURL_def URLSearchParams_empty form f True params_get_def or_else_def)
    show ?thesis using 1 2 3 by blast
  next
    case False
    have 1: "updateURL f = Some (P @ ''?'' @ (''filter='' @ encodeURIComponent F))"
      using url False by simp
    have 2: "location_after (P @ ''?'' @ (''filter='' @ encodeURIComponent F))
             = Inr (P, ''?'' @ query_text (''filter='' @ encodeURIComponent F))"
      using pf encoded_query_stable by (rule location_after_query) simp
    have q: "''?'' @ query_text (''filter='' @ encodeURIComponent F)
             = ''?filter='' @ query_text (encodeURIComponent F)"
      by (simp add: query_text_Cons query_char_def)
    have 3: "loadFromURL P (''?filter='' @ query_text (encodeURIComponent F)) = Inr (Some f)"
      using False
      by (simp only: loadFromURL_def URLSearchParams_filter form sum.case option.case f)
         (simp add: params_get_def or_else_def)
    show ?thesis using 1 2 3 unfolding q by blast
  qed
qed

text \<open>
  C8, at the form of the claim: repo \<open>o/r\<close>, base \<open>main\<close>, head \<open>feat/x\<close>, filter
  \<open>**/*.ts\<close>. The URL is \<open>/gh-dir-diff/o/r/main..feat/x?filter=**%2F*.ts\<close>, and the form
  read from it is the same form.
\<close>

theorem shared_url_round_trip_witness:
  "repo ex_form = ''o'' @ ''/'' @ ''r''
   \<and> CHR ''/'' \<notin> set ''o'' \<and> CHR ''/'' \<notin> set ''r''
   \<and> base ex_form \<noteq> [] \<and> head ex_form \<noteq> [] \<and> last (head ex_form) \<noteq> CHR ''/''
   \<and> list_all path_stable (repo ex_form @ base ex_form @ head ex_form)
   \<and> no_dotdot (repo ex_form @ ''/'' @ base ex_form @ ''.'') \<and> no_dotdot (head ex_form)
   \<and> \<not> list_ex dot_segment
         (split_char CHR ''/'' (repo ex_form @ ''/'' @ base ex_form @ ''..'' @ head ex_form))
   \<and> js_trim (path_filter ex_form) = path_filter ex_form
   \<and> updateURL ex_form = Some ''/gh-dir-diff/o/r/main..feat/x?filter=**%2F*.ts''
   \<and> location_after ''/gh-dir-diff/o/r/main..feat/x?filter=**%2F*.ts''
       = Inr (''/gh-dir-diff/o/r/main..feat/x'', ''?filter=**%2F*.ts'')
   \<and> loadFromURL ''/gh-dir-diff/o/r/main..feat/x'' ''?filter=**%2F*.ts'' = Inr (Some ex_form)"
proof -
  have 1: "repo ex_form = ''o'' @ ''/'' @ ''r''" by (simp add: ex_form_def)
  have 2: "CHR ''/'' \<notin> set ''o''" "CHR ''/'' \<notin> set ''r''" by simp_all
  have 3: "base ex_form \<noteq> []" "head ex_form \<noteq> []" "last (head ex_form) \<noteq> CHR ''/''"
    by (simp_all add: ex_form_def)
  have 4: "list_all path_stable (repo ex_form @ base ex_form @ head ex_form)"
    by (simp add: ex_form_def path_stable_def is_alnum_def)
  have 5: "no_dotdot (repo ex_form @ ''/'' @ base ex_form @ ''.'')" "no_dotdot (head ex_form)"
    by (simp_all add: ex_form_def)
  have 6: "\<not> list_ex dot_segment
         (split_char CHR ''/'' (repo ex_form @ ''/'' @ base ex_form @ ''..'' @ head ex_form))"
    by (simp add: ex_form_def dot_segment_def)
  have 7: "js_trim (path_filter ex_form) = path_filter ex_form"
    by (simp add: ex_form_def js_trim_def js_whitespace_def)
  have u: "updateURL ex_form = Some ''/gh-dir-diff/o/r/main..feat/x?filter=**%2F*.ts''"
    by code_simp
  have l: "location_after ''/gh-dir-diff/o/r/main..feat/x?filter=**%2F*.ts''
       = Inr (''/gh-dir-diff/o/r/main..feat/x'', ''?filter=**%2F*.ts'')"
    by code_simp
  obtain url pathname search where
    r: "updateURL ex_form = Some url" "location_after url = Inr (pathname, search)"
       "loadFromURL pathname search = Inr (Some ex_form)"
    using shared_url_round_trip[OF 1 2 3 4 5 6 7] by blast
  have "url = ''/gh-dir-diff/o/r/main..feat/x?filter=**%2F*.ts''" using r(1) u by simp
  then have "pathname = ''/gh-dir-diff/o/r/main..feat/x''" "search = ''?filter=**%2F*.ts''"
    using r(2) l by simp_all
  then have "loadFromURL ''/gh-dir-diff/o/r/main..feat/x'' ''?filter=**%2F*.ts'' = Inr (Some ex_form)"
    using r(3) by simp
  then show ?thesis using 1 2 3 4 5 6 7 u l by blast
qed

text \<open>
  C8 as stated fails for a head that holds a \<open>#\<close> and for a head that holds \<open>..\<close>. For
  the head \<open>fix#12\<close> the URL written is \<open>/gh-dir-diff/o/r/main..fix#12\<close>; its pathname
  ends before the \<open>#\<close>, and the head read from it is \<open>fix\<close>. For the head \<open>v1..v2\<close>
  the path splits at \<open>..\<close> into three parts, and \<open>loadFromURL\<close> leaves the form alone.
\<close>

theorem shared_url_counterexample:
  "updateURL ex_form_hash = Some ''/gh-dir-diff/o/r/main..fix#12''
   \<and> location_after ''/gh-dir-diff/o/r/main..fix#12'' = Inr (''/gh-dir-diff/o/r/main..fix'', [])
   \<and> loadFromURL ''/gh-dir-diff/o/r/main..fix'' []
       = Inr (Some \<lparr>repo = ''o/r'', base = ''main'', head = ''fix'', path_filter = []\<rparr>)
   \<and> updateURL ex_form_dots = Some ''/gh-dir-diff/o/r/main..v1..v2''
   \<and> location_after ''/gh-dir-diff/o/r/main..v1..v2'' = Inr (''/gh-dir-diff/o/r/main..v1..v2'', [])
   \<and> loadFromURL ''/gh-dir-diff/o/r/main..v1..v2'' [] = Inr None"
proof -
  have 1: "updateURL ex_form_hash = Some ''/gh-dir-diff/o/r/main..fix#12''" by code_simp
  have 2: "location_after ''/gh-dir-diff/o/r/main..fix#12'' = Inr (''/gh-dir-diff/o/r/main..fix'', [])"
    by code_simp
  have 3: "loadFromURL ''/gh-dir-diff/o/r/main..fix'' []
       = Inr (Some \<lparr>repo = ''o/r'', base = ''main'', head = ''fix'', path_filter = []\<rparr>)"
    by code_simp
  have 4: "updateURL ex_form_dots = Some ''/gh-dir-diff/o/r/main..v1..v2''" by code_simp
  have 5: "location_after ''/gh-dir-diff/o/r/main..v1..v2'' = Inr (''/gh-dir-diff/o/r/main..v1..v2'', [])"
    by code_simp
  have 6: "loadFromURL ''/gh-dir-diff/o/r/main..v1..v2'' [] = Inr None" by code_simp
  show ?thesis using 1 2 3 4 5 6 by blast
qed

end
